theory Spec2Isabelle
  imports Complex_Main "HOL-Library.Log_Nat"
begin

section \<open>JavaScript numbers\<close>

text \<open>
  The card is drawn by JavaScript, whose numbers are IEEE 754 doubles. A number is
  modelled as \<open>NaN\<close>, an infinity, or a finite double given by its exact rational
  value. Every arithmetic operation computes the exact result and rounds it to the
  nearest double, ties to even (\<open>rnd\<close>: 53 bits of significand, least exponent
  \<open>-1074\<close>, so subnormals are covered), and overflows to an infinity from
  \<open>2 ^ 1024\<close> on. The sign of zero is not modelled.
\<close>

datatype jsnum = NaN | PInf | NInf | Fin rat

definition expo :: "rat \<Rightarrow> int" where
  "expo x = (let (a, b) = quotient_of \<bar>x\<bar>; d = bitlen a - bitlen b
             in if 2 powi d \<le> \<bar>x\<bar> then d else d - 1)"

definition rne :: "rat \<Rightarrow> int" where
  "rne m = (let f = \<lfloor>m\<rfloor>; r = m - of_int f
            in if r < 1 / 2 then f else if 1 / 2 < r then f + 1
               else if even f then f else f + 1)"

definition rnd :: "rat \<Rightarrow> rat" where
  "rnd x = (if x = 0 then 0
            else let k = max (expo x - 52) (- 1074)
                 in of_int (rne (x / 2 powi k)) * 2 powi k)"

definition dbl :: "rat \<Rightarrow> jsnum" where
  "dbl x = (let r = rnd x
            in if 2 ^ 1024 \<le> r then PInf else if r \<le> - (2 ^ 1024) then NInf else Fin r)"

fun fneg :: "jsnum \<Rightarrow> jsnum" where
  "fneg NaN = NaN"
| "fneg PInf = NInf"
| "fneg NInf = PInf"
| "fneg (Fin a) = Fin (- a)"

fun fadd :: "jsnum \<Rightarrow> jsnum \<Rightarrow> jsnum" where
  "fadd (Fin a) (Fin b) = dbl (a + b)"
| "fadd NaN y = NaN"
| "fadd x NaN = NaN"
| "fadd PInf NInf = NaN"
| "fadd NInf PInf = NaN"
| "fadd PInf y = PInf"
| "fadd x PInf = PInf"
| "fadd NInf y = NInf"
| "fadd x NInf = NInf"

definition fsub :: "jsnum \<Rightarrow> jsnum \<Rightarrow> jsnum" where
  "fsub x y = fadd x (fneg y)"

fun fmul :: "jsnum \<Rightarrow> jsnum \<Rightarrow> jsnum" where
  "fmul (Fin a) (Fin b) = dbl (a * b)"
| "fmul NaN y = NaN"
| "fmul x NaN = NaN"
| "fmul (Fin a) y = (if a = 0 then NaN else if (0 < a) = (y = PInf) then PInf else NInf)"
| "fmul x (Fin b) = (if b = 0 then NaN else if (0 < b) = (x = PInf) then PInf else NInf)"
| "fmul x y = (if x = y then PInf else NInf)"

fun fdiv :: "jsnum \<Rightarrow> jsnum \<Rightarrow> jsnum" where
  "fdiv (Fin a) (Fin b) =
     (if b = 0 then (if a = 0 then NaN else if 0 < a then PInf else NInf) else dbl (a / b))"
| "fdiv NaN y = NaN"
| "fdiv x NaN = NaN"
| "fdiv (Fin a) y = Fin 0"
| "fdiv x (Fin b) = (if (0 \<le> b) = (x = PInf) then PInf else NInf)"
| "fdiv x y = NaN"

text \<open>\<open>Math.min\<close>, \<open>Math.floor\<close>, \<open>isNaN\<close> on a number, and \<open>x <= y\<close>.\<close>

fun fmin :: "jsnum \<Rightarrow> jsnum \<Rightarrow> jsnum" where
  "fmin (Fin a) (Fin b) = Fin (min a b)"
| "fmin NaN y = NaN"
| "fmin x NaN = NaN"
| "fmin NInf y = NInf"
| "fmin x NInf = NInf"
| "fmin PInf y = y"
| "fmin x PInf = x"

fun ffloor :: "jsnum \<Rightarrow> jsnum" where
  "ffloor (Fin a) = Fin (of_int \<lfloor>a\<rfloor>)"
| "ffloor x = x"

definition isNaN :: "jsnum \<Rightarrow> bool" where
  "isNaN x = (x = NaN)"

fun js_le :: "jsnum \<Rightarrow> jsnum \<Rightarrow> bool" where
  "js_le (Fin a) (Fin b) = (a \<le> b)"
| "js_le NaN y = False"
| "js_le x NaN = False"
| "js_le NInf y = True"
| "js_le x PInf = True"
| "js_le x y = False"

section \<open>JavaScript strings and their conversions\<close>

text \<open>
  A string is a list of characters, each standing for one UTF-16 code unit (the unit
  \<open>length\<close> and \<open>slice\<close> count); the 8-bit \<open>char\<close> covers the code units
  below 256.
\<close>

definition is_ws :: "char \<Rightarrow> bool" where
  "is_ws c = ((of_char c :: nat) \<in> {9, 10, 11, 12, 13, 32, 160})"

definition is_digit :: "char \<Rightarrow> bool" where
  "is_digit c = (48 \<le> (of_char c :: nat) \<and> (of_char c :: nat) \<le> 57)"

definition is_hex :: "char \<Rightarrow> bool" where
  "is_hex c = (let n = (of_char c :: nat)
               in (48 \<le> n \<and> n \<le> 57) \<or> (65 \<le> n \<and> n \<le> 70) \<or> (97 \<le> n \<and> n \<le> 102))"

definition digit_val :: "char \<Rightarrow> nat" where
  "digit_val c = (let n = (of_char c :: nat)
                  in if n \<le> 57 then n - 48 else if n \<le> 70 then n - 55 else n - 87)"

definition digits_val :: "nat \<Rightarrow> string \<Rightarrow> nat" where
  "digits_val r ds = foldl (\<lambda>acc c. acc * r + digit_val c) 0 ds"

text \<open>\<open>n.toString()\<close> for a count \<open>n\<close> (decimal digits; exact below \<open>10 ^ 21\<close>).\<close>

function show_nat :: "nat \<Rightarrow> string" where
  "show_nat n = (if n < 10 then [char_of (48 + n)]
                 else show_nat (n div 10) @ [char_of (48 + n mod 10)])"
  by pat_completeness auto
termination
  by (relation "measure id") auto

declare show_nat.simps [simp del]

text \<open>
  \<open>parseInt(s)\<close> with no radix: leading white space is skipped, a sign is read, a
  \<open>0x\<close> prefix switches to radix 16, and the longest run of digits is the result;
  \<open>NaN\<close> when the run is empty. Whatever follows the digits is ignored.
\<close>

definition parseInt :: "string \<Rightarrow> jsnum" where
  "parseInt s =
     (let s1 = dropWhile is_ws s;
          neg = (s1 \<noteq> [] \<and> hd s1 = CHR ''-'');
          s2 = (if s1 \<noteq> [] \<and> (hd s1 = CHR ''-'' \<or> hd s1 = CHR ''+'') then tl s1 else s1);
          hex = (take 2 s2 = ''0x'' \<or> take 2 s2 = ''0X'');
          s3 = (if hex then drop 2 s2 else s2);
          z = takeWhile (if hex then is_hex else is_digit) s3;
          n = digits_val (if hex then 16 else 10) z
      in if z = [] then NaN else dbl (if neg then - of_nat n else of_nat n))"

text \<open>
  \<open>Number(s)\<close>, the conversion behind \<open>s >= 10\<close> and \<open>isNaN(s)\<close>: the whole
  trimmed string has to be a numeric literal (empty: 0; a signed decimal literal with
  an optional fraction and exponent; \<open>Infinity\<close>; an unsigned \<open>0x\<close>, \<open>0o\<close> or
  \<open>0b\<close> literal), else the result is \<open>NaN\<close>.
\<close>

definition trim :: "string \<Rightarrow> string" where
  "trim s = rev (dropWhile is_ws (rev (dropWhile is_ws s)))"

definition unsigned_decimal :: "string \<Rightarrow> jsnum" where
  "unsigned_decimal t =
     (if t = ''Infinity'' then PInf
      else
        let ip = takeWhile is_digit t;
            r1 = dropWhile is_digit t;
            dot = (r1 \<noteq> [] \<and> hd r1 = CHR ''.'');
            fp = (if dot then takeWhile is_digit (tl r1) else []);
            r2 = (if dot then dropWhile is_digit (tl r1) else r1);
            hasexp = (r2 \<noteq> [] \<and> (hd r2 = CHR ''e'' \<or> hd r2 = CHR ''E''));
            r3 = (if hasexp then tl r2 else r2);
            eneg = (hasexp \<and> r3 \<noteq> [] \<and> hd r3 = CHR ''-'');
            r4 = (if hasexp \<and> r3 \<noteq> [] \<and> (hd r3 = CHR ''-'' \<or> hd r3 = CHR ''+'')
                  then tl r3 else r3);
            ed = takeWhile is_digit r4;
            r5 = dropWhile is_digit r4;
            ok = ((ip \<noteq> [] \<or> (dot \<and> fp \<noteq> [])) \<and>
                  (if hasexp then ed \<noteq> [] \<and> r5 = [] else r2 = []));
            mant = (of_nat (digits_val 10 (ip @ fp)) :: rat) / 10 ^ length fp;
            ex = int (digits_val 10 ed)
        in if \<not> ok then NaN else dbl (mant * 10 powi (if eneg then - ex else ex)))"

definition radix_literal :: "nat \<Rightarrow> string \<Rightarrow> jsnum" where
  "radix_literal r ds =
     (if ds \<noteq> [] \<and> list_all (\<lambda>c. is_hex c \<and> digit_val c < r) ds
      then dbl (of_nat (digits_val r ds)) else NaN)"

definition toNumber :: "string \<Rightarrow> jsnum" where
  "toNumber s =
     (let t = trim s
      in if t = [] then Fin 0
         else if take 2 t = ''0x'' \<or> take 2 t = ''0X'' then radix_literal 16 (drop 2 t)
         else if take 2 t = ''0o'' \<or> take 2 t = ''0O'' then radix_literal 8 (drop 2 t)
         else if take 2 t = ''0b'' \<or> take 2 t = ''0B'' then radix_literal 2 (drop 2 t)
         else if hd t = CHR ''-'' then fneg (unsigned_decimal (tl t))
         else if hd t = CHR ''+'' then unsigned_decimal (tl t)
         else unsigned_decimal t)"

text \<open>
  \<open>x.toFixed(0)\<close>: the nearest integer, a tie going to the larger magnitude
  (below \<open>10 ^ 21\<close>; beyond it JavaScript switches to exponent notation).
\<close>

fun toFixed0 :: "jsnum \<Rightarrow> string" where
  "toFixed0 NaN = ''NaN''"
| "toFixed0 PInf = ''Infinity''"
| "toFixed0 NInf = ''-Infinity''"
| "toFixed0 (Fin a) = (if a < 0 then ''-'' else []) @ show_nat (nat \<lfloor>\<bar>a\<bar> + 1 / 2\<rfloor>)"

section \<open>Cached data and the upstream services\<close>

text \<open>
  The module keeps one \<open>Map\<close>, \<open>cache\<close>, whose keys are built from the request:
  \<open>user_<uid>\<close> and \<open>games_<uid>_<cc>\<close> hold \<open>{data, timestamp}\<close>,
  \<open>steamid_<uid>\<close> holds the resolved id (a string) and \<open>steamid_meta_<uid>\<close>
  holds \<open>{timestamp}\<close>. Times are milliseconds.
\<close>

datatype idval = Str string | Stamp int

record profile =
  steamId :: idval
  personaName :: string
  visible :: bool
  avatar :: string
  lastLogOff :: "int option"
  createdAt :: "int option"
  countryCode :: "string option"
  stateCode :: "string option"
  onlineState :: "string option"
  location :: "string option"

record totals =
  totalInitialFormatted :: string
  totalFinalFormatted :: string
  averageGamePrice :: string
  totalPlaytimeHours :: string
  averagePlaytime :: string
  totalGames :: nat

record playCount =
  playedCount :: nat
  unplayedCount :: nat
  totalPlaytime :: nat

text \<open>
  What \<open>getUserData\<close> and \<open>getGameData\<close> hand to the renderer: a profile, the
  library totals, the object \<open>{error: msg}\<close>, or \<open>undefined\<close> (the \<open>data\<close> field of
  a cached value that has none).
\<close>

datatype data = UserData profile | GameData totals playCount | ErrorData string | Undefined

datatype cached = Entry data int | Plain idval

definition CACHE_TTL :: int where
  "CACHE_TTL = 60 * 60 * 1000"

definition AVATAR_CACHE_TTL :: int where
  "AVATAR_CACHE_TTL = 24 * 60 * 60 * 1000"

definition STEAMID_CACHE_TTL :: int where
  "STEAMID_CACHE_TTL = 7 * 24 * 60 * 60 * 1000"

definition GAME_DATA_CACHE_TTL :: int where
  "GAME_DATA_CACHE_TTL = 6 * 60 * 60 * 1000"

text \<open>\<open>isCacheValid(timestamp, ttl)\<close>, with \<open>now\<close> the reading of \<open>Date.now()\<close>.\<close>

definition isCacheValid :: "int \<Rightarrow> int \<Rightarrow> int \<Rightarrow> bool" where
  "isCacheValid now timestamp ttl = (now - timestamp < ttl)"

text \<open>
  Truthiness of \<open>cache.get(key)\<close>, its \<open>timestamp\<close> and \<open>data\<close> fields
  (\<open>undefined\<close> on a string), and the value read as a Steam id.
\<close>

fun truthy :: "cached option \<Rightarrow> bool" where
  "truthy None = False"
| "truthy (Some (Plain (Str s))) = (s \<noteq> [])"
| "truthy (Some c) = True"

fun timestamp_of :: "cached \<Rightarrow> int option" where
  "timestamp_of (Entry d t) = Some t"
| "timestamp_of (Plain (Stamp t)) = Some t"
| "timestamp_of (Plain (Str s)) = None"

fun data_of :: "cached \<Rightarrow> data" where
  "data_of (Entry d t) = d"
| "data_of (Plain v) = Undefined"

fun id_of :: "cached \<Rightarrow> idval" where
  "id_of (Plain v) = v"
| "id_of (Entry d t) = Stamp t"

definition stamp_valid :: "int \<Rightarrow> cached option \<Rightarrow> int \<Rightarrow> bool" where
  "stamp_valid now c ttl =
     (case c of None \<Rightarrow> False
      | Some e \<Rightarrow> (case timestamp_of e of None \<Rightarrow> False | Some t \<Rightarrow> isCacheValid now t ttl))"

text \<open>\<open>if (cached && isCacheValid(cached.timestamp, ttl)) return cached.data\<close>.\<close>

definition cache_hit :: "int \<Rightarrow> cached option \<Rightarrow> int \<Rightarrow> data option" where
  "cache_hit now c ttl =
     (if truthy c \<and> stamp_valid now c ttl then map_option data_of c else None)"

text \<open>The upstream services and the helpers of \<open>@/utils/utils\<close>, as parameters.\<close>

datatype upstream_error = Forbidden | NetworkFailure | TimedOut | NotFound

record game =
  game_id :: nat
  minutes :: nat

record price_overview =
  final :: "nat option"
  initial :: "nat option"

record userSummary =
  us_nickname :: string
  us_visible :: bool
  us_avatar_large :: string
  us_lastLogOffTimestamp :: "int option"
  us_createdTimestamp :: "int option"
  us_countryCode :: "string option"
  us_stateCode :: "string option"

record sidrSummary =
  sidr_onlineState :: "string list option"
  sidr_location :: "string list option"

record services =
  resolveVanityUrl :: "string \<Rightarrow> upstream_error + string"
  getUserSummary :: "idval \<Rightarrow> upstream_error + userSummary"
  steamID64ToFullInfo :: "idval \<Rightarrow> upstream_error + sidrSummary"
  getUserOwnedGames :: "idval \<Rightarrow> upstream_error + game list"
  appdetails :: "nat list \<Rightarrow> string \<Rightarrow> upstream_error + price_overview option list"
  formatter_format :: "jsnum \<Rightarrow> string"
  getAverage :: "nat list \<Rightarrow> jsnum"
  minutesToHoursCompact :: "nat \<Rightarrow> string"
  minutesToHoursPrecise :: "jsnum \<Rightarrow> string"

text \<open>
  The module state: \<open>cache\<close>, \<open>pendingRequests\<close> (each in-flight promise is
  named by a number) and, as instrumentation, the list of upstream requests made.
\<close>

datatype call =
  ResolveVanity string
| UserSummary idval
| FullInfo idval
| OwnedGames idval
| AppDetails "nat list" string

record state =
  cache :: "string \<rightharpoonup> cached"
  pendingRequests :: "string \<rightharpoonup> nat"
  calls :: "call list"

datatype reply = Ready data | Shared nat

subsection \<open>getUserData\<close>

text \<open>\<open>xs[0]\<close>: \<open>undefined\<close> on an empty array.\<close>

definition first_or_undefined :: "string list \<Rightarrow> string option" where
  "first_or_undefined xs = (case xs of [] \<Rightarrow> None | x # rest \<Rightarrow> Some x)"

text \<open>
  The body of the request promise, from \<open>try\<close> to \<open>catch\<close>: every failure inside
  ends in \<open>{error: 'no user'}\<close>.
\<close>

definition user_steamId :: "services \<Rightarrow> int \<Rightarrow> state \<Rightarrow> string \<Rightarrow> (upstream_error + idval) \<times> state" where
  "user_steamId sv now st uid =
     (let steamId = cache st (''steamid_'' @ uid);
          steamIdCached = cache st (''steamid_meta_'' @ uid)
      in if \<not> truthy steamId \<or> \<not> truthy steamIdCached
            \<or> \<not> stamp_valid now steamIdCached STEAMID_CACHE_TTL
         then (case resolveVanityUrl sv uid of
                 Inl e \<Rightarrow> (Inl e, st\<lparr>calls := calls st @ [ResolveVanity uid]\<rparr>)
               | Inr s \<Rightarrow>
                   (Inr (Str s),
                    st\<lparr>cache := (cache st)(''steamid_'' @ uid \<mapsto> Plain (Str s),
                                             ''steamid_meta_'' @ uid \<mapsto> Plain (Stamp now)),
                       calls := calls st @ [ResolveVanity uid]\<rparr>))
         else (Inr (id_of (the steamId)), st))"

definition make_userData :: "idval \<Rightarrow> userSummary \<Rightarrow> sidrSummary \<Rightarrow> data" where
  "make_userData sid us sidr =
     UserData \<lparr>steamId = sid,
               personaName = us_nickname us,
               visible = us_visible us,
               avatar = us_avatar_large us,
               lastLogOff = us_lastLogOffTimestamp us,
               createdAt = us_createdTimestamp us,
               countryCode = us_countryCode us,
               stateCode = us_stateCode us,
               onlineState = (case sidr_onlineState sidr of None \<Rightarrow> None
                              | Some l \<Rightarrow> first_or_undefined l),
               location = (case sidr_location sidr of None \<Rightarrow> Some ''Unknown''
                           | Some l \<Rightarrow> first_or_undefined l)\<rparr>"

definition user_fetch :: "services \<Rightarrow> int \<Rightarrow> state \<Rightarrow> string \<Rightarrow> data \<times> state" where
  "user_fetch sv now st uid =
     (case user_steamId sv now st uid of
        (Inl e, st1) \<Rightarrow> (ErrorData ''no user'', st1)
      | (Inr sid, st1) \<Rightarrow>
          (let st2 = st1\<lparr>calls := calls st1 @ [UserSummary sid, FullInfo sid]\<rparr>
           in case getUserSummary sv sid of
                Inl e \<Rightarrow> (ErrorData ''no user'', st2)
              | Inr us \<Rightarrow>
                  (let sidr = (case steamID64ToFullInfo sv sid of
                                 Inl e \<Rightarrow> \<lparr>sidr_onlineState = None, sidr_location = None\<rparr>
                               | Inr r \<Rightarrow> r);
                       userData = make_userData sid us sidr
                   in (userData,
                       st2\<lparr>cache := (cache st2)(''user_'' @ uid \<mapsto> Entry userData now)\<rparr>))))"

text \<open>
  \<open>getUserData(uid)\<close>, run to completion: a valid cached value is returned; a
  promise already in flight for the key is shared; otherwise the request is made and,
  when it settles, the key leaves \<open>pendingRequests\<close> (\<open>finally\<close>).
\<close>

definition getUserData :: "services \<Rightarrow> int \<Rightarrow> state \<Rightarrow> string \<Rightarrow> reply \<times> state" where
  "getUserData sv now st uid =
     (let cacheKey = ''user_'' @ uid
      in case cache_hit now (cache st cacheKey) CACHE_TTL of
           Some d \<Rightarrow> (Ready d, st)
         | None \<Rightarrow>
             (case pendingRequests st cacheKey of
                Some p \<Rightarrow> (Shared p, st)
              | None \<Rightarrow>
                  (let (d, st1) = user_fetch sv now st uid
                   in (Ready d, st1\<lparr>pendingRequests := (pendingRequests st1)(cacheKey := None)\<rparr>))))"

subsection \<open>getGameData\<close>

text \<open>The loop over the owned games (\<open>for (const item of userGames)\<close>).\<close>

record tally =
  gameIds :: "nat list"
  playtime :: "nat list"
  counts :: playCount

definition tally_item :: "tally \<Rightarrow> game \<Rightarrow> tally" where
  "tally_item a item =
     (let a1 = a\<lparr>gameIds := gameIds a @ [game_id item]\<rparr>;
          a2 = (if minutes item > 0
                then a1\<lparr>playtime := playtime a1 @ [minutes item],
                        counts := (counts a1)\<lparr>playedCount := playedCount (counts a1) + 1,
                                               totalPlaytime := totalPlaytime (counts a1) + minutes item\<rparr>\<rparr>
                else a1)
      in if minutes item = 0
         then a2\<lparr>counts := (counts a2)\<lparr>unplayedCount := unplayedCount (counts a2) + 1\<rparr>\<rparr>
         else a2)"

definition tally_games :: "game list \<Rightarrow> tally" where
  "tally_games userGames =
     foldl tally_item
       \<lparr>gameIds = [], playtime = [],
        counts = \<lparr>playedCount = 0, unplayedCount = 0, totalPlaytime = 0\<rparr>\<rparr> userGames"

text \<open>The app ids in chunks of at most 200 (\<open>gameIds.slice(i, i + 200)\<close>).\<close>

definition maxGameIdsPerCall :: nat where
  "maxGameIdsPerCall = 200"

function gameIdChunks :: "nat list \<Rightarrow> nat \<Rightarrow> nat list list" where
  "gameIdChunks ids i =
     (if i < length ids
      then take maxGameIdsPerCall (drop i ids) # gameIdChunks ids (i + maxGameIdsPerCall)
      else [])"
  by pat_completeness auto
termination
  by (relation "measure (\<lambda>(ids, i). length ids - i)") (auto simp: maxGameIdsPerCall_def)

declare gameIdChunks.simps [simp del]

text \<open>
  The price lookups. Each chunk is one request; a chunk that fails adds nothing. The
  responses are taken in the order of the chunks (the sums do not depend on the order
  in which the parallel requests settle).
\<close>

record price_acc =
  prices :: "nat list"
  totalInitial :: nat
  totalFinal :: nat

definition or_zero :: "nat option \<Rightarrow> nat" where
  "or_zero v = (case v of None \<Rightarrow> 0 | Some n \<Rightarrow> n)"

definition add_price :: "price_acc \<Rightarrow> price_overview option \<Rightarrow> price_acc" where
  "add_price acc po =
     (case po of
        None \<Rightarrow> acc
      | Some p \<Rightarrow>
          (let finalPrice = or_zero (final p);
               initialPrice = or_zero (initial p)
           in if initialPrice > 0
              then acc\<lparr>prices := prices acc @ [initialPrice],
                       totalInitial := totalInitial acc + initialPrice,
                       totalFinal := totalFinal acc + finalPrice\<rparr>
              else acc))"

definition price_chunk :: "services \<Rightarrow> string \<Rightarrow> price_acc \<Rightarrow> nat list \<Rightarrow> price_acc" where
  "price_chunk sv country_code acc chunk =
     (case appdetails sv chunk country_code of
        Inl e \<Rightarrow> acc
      | Inr entries \<Rightarrow> foldl add_price acc entries)"

definition make_gameData :: "services \<Rightarrow> game list \<Rightarrow> tally \<Rightarrow> price_acc \<Rightarrow> data" where
  "make_gameData sv userGames t pr =
     GameData
       \<lparr>totalInitialFormatted = formatter_format sv (fdiv (Fin (of_nat (totalInitial pr))) (Fin 100)),
        totalFinalFormatted = formatter_format sv (fdiv (Fin (of_nat (totalFinal pr))) (Fin 100)),
        averageGamePrice =
          (if length (prices pr) > 0
           then formatter_format sv (fdiv (getAverage sv (prices pr)) (Fin 100))
           else ''$0.00''),
        totalPlaytimeHours = minutesToHoursCompact sv (totalPlaytime (counts t)),
        averagePlaytime =
          (if length (playtime t) > 0
           then minutesToHoursPrecise sv (getAverage sv (playtime t))
           else ''0''),
        totalGames = length userGames\<rparr>
       (counts t)"

text \<open>
  What the request computes from the list of owned games: the tally, the price
  lookups, the formatted totals.
\<close>

definition aggregate :: "services \<Rightarrow> string \<Rightarrow> game list \<Rightarrow> data" where
  "aggregate sv country_code userGames =
     (let t = tally_games userGames;
          chunks = gameIdChunks (gameIds t) 0;
          pr = foldl (price_chunk sv country_code)
                 \<lparr>prices = [], totalInitial = 0, totalFinal = 0\<rparr> chunks
      in make_gameData sv userGames t pr)"

definition games_steamId :: "services \<Rightarrow> state \<Rightarrow> string \<Rightarrow> (upstream_error + idval) \<times> state" where
  "games_steamId sv st uid =
     (let steamId = cache st (''steamid_'' @ uid)
      in if \<not> truthy steamId
         then (case resolveVanityUrl sv uid of
                 Inl e \<Rightarrow> (Inl e, st\<lparr>calls := calls st @ [ResolveVanity uid]\<rparr>)
               | Inr s \<Rightarrow>
                   (Inr (Str s),
                    st\<lparr>cache := (cache st)(''steamid_'' @ uid \<mapsto> Plain (Str s)),
                       calls := calls st @ [ResolveVanity uid]\<rparr>))
         else (Inr (id_of (the steamId)), st))"

text \<open>
  The body of the request promise, from \<open>try\<close> to \<open>catch\<close>: every failure inside
  ends in \<open>{error: 'private games'}\<close>.
\<close>

definition games_fetch :: "services \<Rightarrow> int \<Rightarrow> state \<Rightarrow> string \<Rightarrow> string \<Rightarrow> data \<times> state" where
  "games_fetch sv now st uid country_code =
     (case games_steamId sv st uid of
        (Inl e, st1) \<Rightarrow> (ErrorData ''private games'', st1)
      | (Inr sid, st1) \<Rightarrow>
          (let st2 = st1\<lparr>calls := calls st1 @ [OwnedGames sid]\<rparr>
           in case getUserOwnedGames sv sid of
                Inl e \<Rightarrow> (ErrorData ''private games'', st2)
              | Inr userGames \<Rightarrow>
                  (let gameData = aggregate sv country_code userGames;
                       lookups = map (\<lambda>chunk. AppDetails chunk country_code)
                                   (gameIdChunks (gameIds (tally_games userGames)) 0)
                   in (gameData,
                       st2\<lparr>cache := (cache st2)(''games_'' @ uid @ ''_'' @ country_code
                                                  \<mapsto> Entry gameData now),
                           calls := calls st2 @ lookups\<rparr>))))"

text \<open>\<open>getGameData(uid, countryCode)\<close>, run to completion.\<close>

definition getGameData :: "services \<Rightarrow> int \<Rightarrow> state \<Rightarrow> string \<Rightarrow> string \<Rightarrow> reply \<times> state" where
  "getGameData sv now st uid country_code =
     (let cacheKey = ''games_'' @ uid @ ''_'' @ country_code
      in case cache_hit now (cache st cacheKey) GAME_DATA_CACHE_TTL of
           Some d \<Rightarrow> (Ready d, st)
         | None \<Rightarrow>
             (case pendingRequests st cacheKey of
                Some p \<Rightarrow> (Shared p, st)
              | None \<Rightarrow>
                  (let (d, st1) = games_fetch sv now st uid country_code
                   in (Ready d, st1\<lparr>pendingRequests := (pendingRequests st1)(cacheKey := None)\<rparr>))))"

section \<open>The card renderer\<close>

text \<open>
  The canvas is modelled by the sequence of calls made on its 2D context, property
  assignments included: the encoded image is a function of that sequence. The canvas
  library, \<open>moment\<close> and the helpers of \<open>@/utils/utils\<close> the renderer calls are
  parameters: \<open>measureText font s\<close> is the width \<open>ctx.measureText(s).width\<close> under
  the font \<open>font\<close>, \<open>loadImage\<close> is \<open>None\<close> when the image fails to load or decode.
\<close>

datatype image = Image (img_src: string) (img_width: nat) (img_height: nat)

datatype cmd =
  FillStyle string
| StrokeStyle string
| Font string
| GlobalAlpha jsnum
| LineWidth jsnum
| FillRect jsnum jsnum jsnum jsnum
| StrokeRect jsnum jsnum jsnum jsnum
| FillText string jsnum jsnum
| DrawImage image jsnum jsnum
| DrawImageScaled image jsnum jsnum jsnum jsnum
| BeginPath
| MoveTo jsnum jsnum
| LineTo jsnum jsnum
| ArcTo jsnum jsnum jsnum jsnum jsnum
| ClosePath
| Stroke
| Fill
| Clip
| Save
| Restore

record gfx =
  measureText :: "string \<Rightarrow> string \<Rightarrow> rat"
  loadImage :: "string \<Rightarrow> image option"
  fromNow :: "int \<Rightarrow> string"
  getRelativeTimeImprecise :: "int \<Rightarrow> string"
  pricePerHour :: "string option \<Rightarrow> string option \<Rightarrow> string"

datatype render_error = LoadError string | TypeError

subsection \<open>The image cache\<close>

type_synonym imageCache = "string \<rightharpoonup> image \<times> int"

definition getCachedImage ::
  "gfx \<Rightarrow> int \<Rightarrow> imageCache \<Rightarrow> string \<Rightarrow> bool \<Rightarrow> (render_error + image) \<times> imageCache" where
  "getCachedImage g now ic imagePath isAvatar =
     (let cacheKey = ''img_'' @ imagePath;
          ttl = (if isAvatar then AVATAR_CACHE_TTL else CACHE_TTL)
      in case ic cacheKey of
           Some (img, timestamp) \<Rightarrow>
             if isCacheValid now timestamp ttl then (Inr img, ic)
             else (case loadImage g imagePath of
                     None \<Rightarrow> (Inl (LoadError imagePath), ic)
                   | Some img \<Rightarrow> (Inr img, ic(cacheKey \<mapsto> (img, now))))
         | None \<Rightarrow>
             (case loadImage g imagePath of
                None \<Rightarrow> (Inl (LoadError imagePath), ic)
              | Some img \<Rightarrow> (Inr img, ic(cacheKey \<mapsto> (img, now)))))"

text \<open>\<open>path.join(process.cwd(), 'public', 'canvas', name)\<close>, relative to the working directory.\<close>

definition asset :: "string \<Rightarrow> string" where
  "asset name = ''public/canvas/'' @ name"

subsection \<open>Arguments, defaults and themes\<close>

text \<open>
  The query parameters the handler passes on; each is a string or \<open>undefined\<close>.
\<close>

record query =
  q_bg_color :: "string option"
  q_title_color :: "string option"
  q_sub_title_color :: "string option"
  q_text_color :: "string option"
  q_username_color :: "string option"
  q_id_color :: "string option"
  q_cp_color :: "string option"
  q_ip_color :: "string option"
  q_div_color :: "string option"
  q_border_color :: "string option"
  q_border_width :: "string option"
  q_progbar_bg :: "string option"
  q_progbar_color :: "string option"
  q_hide_border :: "string option"
  q_theme :: "string option"

record colors =
  bg_color :: string
  title_color :: string
  sub_title_color :: string
  text_color :: string
  username_color :: string
  id_color :: string
  cp_color :: string
  ip_color :: string
  div_color :: string
  border_color :: string
  progbar_bg :: string
  progbar_color :: string

definition dflt :: "string option \<Rightarrow> string \<Rightarrow> string" where
  "dflt v d = (case v of None \<Rightarrow> d | Some s \<Rightarrow> s)"

definition default_colors :: "query \<Rightarrow> colors" where
  "default_colors q =
     \<lparr>bg_color = dflt (q_bg_color q) ''0b0b0b'',
      title_color = dflt (q_title_color q) ''fff'',
      sub_title_color = dflt (q_sub_title_color q) ''adadad'',
      text_color = dflt (q_text_color q) ''fff'',
      username_color = dflt (q_username_color q) ''fff'',
      id_color = dflt (q_id_color q) ''adadad'',
      cp_color = dflt (q_cp_color q) ''f87171'',
      ip_color = dflt (q_ip_color q) ''4ade80'',
      div_color = dflt (q_div_color q) ''ffffff30'',
      border_color = dflt (q_border_color q) ''ffffff30'',
      progbar_bg = dflt (q_progbar_bg q) ''313131'',
      progbar_color = dflt (q_progbar_color q) ''006fee''\<rparr>"

definition apply_theme :: "string option \<Rightarrow> colors \<Rightarrow> colors" where
  "apply_theme theme c =
     (let c1 = (if theme = Some ''dark''
                then c\<lparr>bg_color := ''0b0b0b'',
                       title_color := ''fff'',
                       sub_title_color := ''adadad'',
                       text_color := ''fff'',
                       username_color := ''fff'',
                       id_color := ''adadad'',
                       div_color := ''ffffff30'',
                       border_color := ''ffffff30'',
                       progbar_bg := ''ffffff30'',
                       progbar_color := ''006fee''\<rparr>
                else c)
      in if theme = Some ''light''
         then c1\<lparr>bg_color := ''fff'',
                 title_color := ''000'',
                 sub_title_color := ''000'',
                 text_color := ''000'',
                 username_color := ''000'',
                 id_color := ''adadad'',
                 div_color := ''00000030'',
                 border_color := ''00000030'',
                 progbar_bg := ''00000050'',
                 progbar_color := ''60a5fa''\<rparr>
         else c1)"

text \<open>
  \<open>border_width\<close> is the number 1 by default and a string when given;
  \<open>parseInt(border_width >= 10 ? 10 : border_width)\<close> is assigned to \<open>lineWidth\<close>.
\<close>

datatype width_arg = WNum nat | WStr string

definition default_border_width :: "string option \<Rightarrow> width_arg" where
  "default_border_width v = (case v of None \<Rightarrow> WNum 1 | Some s \<Rightarrow> WStr s)"

definition ge_10 :: "width_arg \<Rightarrow> bool" where
  "ge_10 w = (case w of WNum n \<Rightarrow> 10 \<le> n | WStr s \<Rightarrow> js_le (Fin 10) (toNumber s))"

definition parseInt_arg :: "width_arg \<Rightarrow> jsnum" where
  "parseInt_arg w = (case w of WNum n \<Rightarrow> parseInt (show_nat n) | WStr s \<Rightarrow> parseInt s)"

definition border_lineWidth :: "width_arg \<Rightarrow> jsnum" where
  "border_lineWidth border_width = parseInt_arg (if ge_10 border_width then WNum 10 else border_width)"

subsection \<open>The drawing steps\<close>

definition hash :: "string \<Rightarrow> string" where
  "hash color = CHR ''#'' # color"

definition draw_background :: "colors \<Rightarrow> cmd list" where
  "draw_background c =
     [FillStyle (hash (bg_color c)), FillRect (Fin 0) (Fin 0) (Fin 705) (Fin 385)]"

definition draw_watermark :: "image \<Rightarrow> cmd list" where
  "draw_watermark watermarkImage =
     [DrawImage watermarkImage (Fin (705 - 180)) (Fin (385 - 32)), GlobalAlpha (Fin 1)]"

definition draw_watermark_text :: "cmd list" where
  "draw_watermark_text =
     [GlobalAlpha (dbl (4 / 10)), FillStyle ''#737373'', Font ''16px Geist'',
      FillText ''steeeam.vercel.app'' (Fin (705 - 155)) (Fin (385 - 17))]"

text \<open>
  The username. The loop tries the prefixes of length \<open>0, 1, ...\<close> below the length
  of the name, each followed by three dots, stops at the first that is wider than 180
  and keeps the last length that fitted.
\<close>

function truncate_loop :: "(string \<Rightarrow> rat) \<Rightarrow> string \<Rightarrow> nat \<Rightarrow> nat \<Rightarrow> nat" where
  "truncate_loop width username i truncatedLength =
     (if i < length username
      then (if width (take i username @ ''...'') > 180 then truncatedLength
            else truncate_loop width username (Suc i) i)
      else truncatedLength)"
  by pat_completeness auto
termination
  by (relation "measure (\<lambda>(width, username, i, truncatedLength). length username - i)") auto

declare truncate_loop.simps [simp del]

definition drawn_username :: "(string \<Rightarrow> rat) \<Rightarrow> string \<Rightarrow> string" where
  "drawn_username width username =
     (if width username > 180
      then take (truncate_loop width username 0 0) username @ ''...''
      else username)"

definition draw_username :: "gfx \<Rightarrow> colors \<Rightarrow> string \<Rightarrow> cmd list" where
  "draw_username g c username =
     [FillStyle (hash (username_color c)), Font ''700 20px Geist'',
      FillText (drawn_username (measureText g ''700 20px Geist'') username) (Fin 20) (Fin 180)]"

text \<open>
  The Steam id is written with \<open>fillText\<close>. Modelled from the spec: what the canvas
  library does with a text argument that is not a string is not in the source; section
  7 of the spec has a profile that carries the error marker end in a handler failure,
  so a text argument that is not a string is taken to throw.
\<close>

definition draw_steamId :: "colors \<Rightarrow> idval \<Rightarrow> render_error + cmd list" where
  "draw_steamId c sid =
     (case sid of
        Str s \<Rightarrow> Inr [FillStyle (hash (id_color c)), Font ''10px Geist'', FillText s (Fin 20) (Fin 195)]
      | Stamp t \<Rightarrow> Inl TypeError)"

definition location_text :: "string option \<Rightarrow> string" where
  "location_text v =
     (let location = (case v of None \<Rightarrow> ''Unknown''
                      | Some s \<Rightarrow> if s = [] then ''Unknown'' else s)
      in if length location > 22 then take 22 location @ ''...'' else location)"

definition draw_location :: "colors \<Rightarrow> image \<Rightarrow> string option \<Rightarrow> cmd list" where
  "draw_location c locIcon v =
     [DrawImage locIcon (Fin 20) (Fin 220), FillStyle (hash (text_color c)), Font ''12px Geist'',
      FillText (location_text v) (Fin 43) (Fin 232)]"

definition lastSeen_text :: "gfx \<Rightarrow> int option \<Rightarrow> string" where
  "lastSeen_text g v =
     ''Last seen '' @ (case v of None \<Rightarrow> ''never''
                       | Some t \<Rightarrow> if t = 0 then ''never'' else fromNow g t)"

definition draw_lastSeen :: "gfx \<Rightarrow> colors \<Rightarrow> image \<Rightarrow> int option \<Rightarrow> cmd list" where
  "draw_lastSeen g c seenIcon v =
     [DrawImage seenIcon (Fin 20) (Fin 245), FillStyle (hash (text_color c)), Font ''12px Geist'',
      FillText (lastSeen_text g v) (Fin 43) (Fin 257)]"

definition createdAt_text :: "gfx \<Rightarrow> int option \<Rightarrow> string" where
  "createdAt_text g v =
     (case v of None \<Rightarrow> ''Unknown''
      | Some t \<Rightarrow> if t = 0 then ''Unknown''
                  else ''Joined '' @ getRelativeTimeImprecise g t @ '' ago'')"

definition draw_createdAt :: "gfx \<Rightarrow> colors \<Rightarrow> image \<Rightarrow> int option \<Rightarrow> cmd list" where
  "draw_createdAt g c joinIcon v =
     [DrawImage joinIcon (Fin 20) (Fin 270), FillStyle (hash (text_color c)), Font ''12px Geist'',
      FillText (createdAt_text g v) (Fin 43) (Fin 283)]"

definition draw_vertical_divider :: "colors \<Rightarrow> cmd list" where
  "draw_vertical_divider c =
     [LineWidth (Fin 1), StrokeStyle (hash (div_color c)), BeginPath,
      MoveTo (Fin 200) (Fin 15), LineTo (Fin 200) (Fin (385 - 15)), Stroke]"

definition draw_stats_header :: "colors \<Rightarrow> image \<Rightarrow> cmd list" where
  "draw_stats_header c gameStatsIcon =
     [DrawImage gameStatsIcon (Fin 215) (Fin 20), FillStyle (hash (title_color c)),
      Font ''600 16px Geist'', FillText ''Account Statistics'' (Fin 245) (Fin 37)]"

definition draw_horizontal_divider :: "colors \<Rightarrow> cmd list" where
  "draw_horizontal_divider c =
     [LineWidth (Fin 1), StrokeStyle (hash (div_color c)), BeginPath,
      MoveTo (Fin 215) (Fin 50), LineTo (Fin (705 - 15)) (Fin 50), Stroke]"

subsection \<open>The statistics panel\<close>

text \<open>\<open>x || d\<close> on a string that may be \<open>undefined\<close>.\<close>

definition or_default :: "string option \<Rightarrow> string \<Rightarrow> string" where
  "or_default v d = (case v of None \<Rightarrow> d | Some s \<Rightarrow> if s = [] then d else s)"

definition stat_block ::
  "colors \<Rightarrow> string \<Rightarrow> string \<Rightarrow> string \<Rightarrow> rat \<Rightarrow> rat \<Rightarrow> cmd list" where
  "stat_block c label valueColor shown x y =
     [FillStyle (hash (sub_title_color c)), Font ''16px Geist'', FillText label (Fin x) (Fin y),
      FillStyle (hash valueColor), Font ''600 26px Geist'', FillText shown (Fin x) (Fin (y + 30))]"

definition totalGames_text :: "totals option \<Rightarrow> string" where
  "totalGames_text t =
     (case t of None \<Rightarrow> ''0''
      | Some v \<Rightarrow> if totalGames v = 0 then ''0'' else show_nat (totalGames v))"

definition draw_stat_blocks :: "gfx \<Rightarrow> colors \<Rightarrow> totals option \<Rightarrow> cmd list" where
  "draw_stat_blocks g c t =
     stat_block c ''Current Price'' (cp_color c)
       (or_default (map_option totalFinalFormatted t) ''$0'') 215 80
     @ stat_block c ''Initial Price'' (ip_color c)
       (or_default (map_option totalInitialFormatted t) ''$0'') 370 80
     @ stat_block c ''Total Games'' (text_color c) (totalGames_text t) 215 160
     @ stat_block c ''Avg. Price'' (text_color c)
       (or_default (map_option averageGamePrice t) ''$0'') 370 160
     @ stat_block c ''Price Per Hour'' (text_color c)
       (or_default (Some (pricePerHour g (map_option totalFinalFormatted t)
                            (map_option totalPlaytimeHours t))) ''0'') 510 160
     @ stat_block c ''Avg. Playtime'' (text_color c)
       (or_default (map_option averagePlaytime t) ''0'' @ ''h'') 215 240
     @ stat_block c ''Total Playtime'' (text_color c)
       (or_default (map_option totalPlaytimeHours t) ''0'' @ ''h'') 370 240"

text \<open>
  The played/total line. \<open>playedCount\<close> and \<open>gameCount\<close> are the strings
  \<open>n.toString() || '0'\<close>; \<open>progress\<close> is
  \<open>(parseInt(playedCount) / parseInt(gameCount)) * 100\<close>.
\<close>

definition playedCount_text :: "playCount option \<Rightarrow> string" where
  "playedCount_text pc =
     (case pc of None \<Rightarrow> ''0'' | Some v \<Rightarrow> or_default (Some (show_nat (playedCount v))) ''0'')"

definition gameCount_text :: "totals option \<Rightarrow> string" where
  "gameCount_text t =
     (case t of None \<Rightarrow> ''0'' | Some v \<Rightarrow> or_default (Some (show_nat (totalGames v))) ''0'')"

definition progress_of :: "string \<Rightarrow> string \<Rightarrow> jsnum" where
  "progress_of played gameCount =
     fmul (fdiv (parseInt played) (parseInt gameCount)) (Fin 100)"

definition draw_counter :: "gfx \<Rightarrow> colors \<Rightarrow> string \<Rightarrow> string \<Rightarrow> cmd list" where
  "draw_counter g c played gameCount =
     (let progressPercent = toFixed0 (progress_of played gameCount)
      in if \<not> isNaN (toNumber progressPercent)
         then [FillStyle (hash (progbar_color c)), Font ''700 14px Geist'',
               FillText played (Fin 215) (Fin 324),
               FillStyle (hash (text_color c)), Font ''14px Geist'',
               FillText ''/''
                 (fadd (fadd (Fin (measureText g ''14px Geist'' played)) (Fin 215)) (Fin 5))
                 (Fin 324),
               FillStyle (hash (progbar_color c)), Font ''700 14px Geist'',
               FillText gameCount
                 (fadd (fadd (Fin (measureText g ''700 14px Geist'' played)) (Fin 215)) (Fin 15))
                 (Fin 324),
               FillStyle (hash (text_color c)), Font ''14px Geist'',
               FillText ''games played''
                 (fadd (fadd (fadd (Fin (measureText g ''14px Geist'' played))
                                   (Fin (measureText g ''14px Geist'' gameCount)))
                             (Fin 215)) (Fin 20))
                 (Fin 324),
               Font ''700 14px Geist'',
               FillText (progressPercent @ ''%'') (Fin 405) (Fin 324)]
         else [])"

definition roundRect ::
  "jsnum \<Rightarrow> jsnum \<Rightarrow> jsnum \<Rightarrow> jsnum \<Rightarrow> jsnum \<Rightarrow> bool \<Rightarrow> bool \<Rightarrow> cmd list" where
  "roundRect x y width height radius fill stroke =
     [BeginPath,
      MoveTo (fadd x radius) y,
      LineTo (fsub (fadd x width) radius) y,
      ArcTo (fadd x width) y (fadd x width) (fadd y radius) radius,
      LineTo (fadd x width) (fsub (fadd y height) radius),
      ArcTo (fadd x width) (fadd y height) (fsub (fadd x width) radius) (fadd y height) radius,
      LineTo (fadd x radius) (fadd y height),
      ArcTo x (fadd y height) x (fsub (fadd y height) radius) radius,
      LineTo x (fadd y radius),
      ArcTo x y (fadd x radius) y radius,
      ClosePath]
     @ (if stroke then [Stroke] else [])
     @ (if fill then [Fill] else [])"

text \<open>\<open>const barWidth = Math.floor(barwidth * (progress / 100))\<close>.\<close>

definition barWidth :: "jsnum \<Rightarrow> jsnum \<Rightarrow> jsnum" where
  "barWidth barwidth progress = ffloor (fmul barwidth (fdiv progress (Fin 100)))"

definition createRoundedProgressBar ::
  "jsnum \<Rightarrow> jsnum \<Rightarrow> jsnum \<Rightarrow> string \<Rightarrow> string \<Rightarrow> jsnum \<Rightarrow> cmd list" where
  "createRoundedProgressBar barwidth barheight progress barColor backgroundColor borderRadius =
     (if isNaN progress then []
      else [FillStyle backgroundColor]
           @ roundRect (Fin 215) (Fin 330) barwidth barheight borderRadius True False
           @ [FillStyle barColor]
           @ roundRect (Fin 215) (Fin 330) (barWidth barwidth progress) barheight borderRadius
               True True)"

definition draw_stats :: "gfx \<Rightarrow> colors \<Rightarrow> totals option \<Rightarrow> playCount option \<Rightarrow> cmd list" where
  "draw_stats g c t pc =
     (let played = playedCount_text pc;
          gameCount = gameCount_text t
      in draw_stat_blocks g c t
         @ draw_counter g c played gameCount
         @ createRoundedProgressBar (Fin 220) (Fin 12) (progress_of played gameCount)
             (hash (progbar_color c)) (hash (progbar_bg c)) (Fin 6))"

definition draw_private :: "colors \<Rightarrow> cmd list" where
  "draw_private c =
     [FillStyle (hash (sub_title_color c)), Font ''16px Geist'',
      FillText ''Private Games List'' (Fin 390) (Fin 200)]"

text \<open>
  \<open>if (!gameData.error) {stats} else {message}\<close>: reading \<open>error\<close> of \<open>undefined\<close>
  throws; the field is a non-empty string only on the error object.
\<close>

definition draw_panel :: "gfx \<Rightarrow> colors \<Rightarrow> data \<Rightarrow> render_error + cmd list" where
  "draw_panel g c gameData =
     (case gameData of
        Undefined \<Rightarrow> Inl TypeError
      | ErrorData e \<Rightarrow> if e = [] then Inr (draw_stats g c None None) else Inr (draw_private c)
      | GameData t pc \<Rightarrow> Inr (draw_stats g c (Some t) (Some pc))
      | UserData p \<Rightarrow> Inr (draw_stats g c None None))"

subsection \<open>Avatar and border\<close>

text \<open>
  The avatar is loaded inside \<open>try\<close>: when the load fails, the \<open>catch\<close> leaves the
  canvas as it is.
\<close>

definition drawCenteredRoundedImage ::
  "gfx \<Rightarrow> int \<Rightarrow> imageCache \<Rightarrow> string \<Rightarrow> cmd list \<times> imageCache" where
  "drawCenteredRoundedImage g now ic avatarUrl =
     (case getCachedImage g now ic avatarUrl True of
        (Inl e, ic1) \<Rightarrow> ([], ic1)
      | (Inr av, ic1) \<Rightarrow>
          (let w = Fin (of_nat (img_width av));
               h = Fin (of_nat (img_height av));
               scaleFactor = fmin (fdiv (Fin 130) w) (fdiv (Fin 130) h);
               newWidth = fmul w scaleFactor;
               newHeight = fmul h scaleFactor;
               cornerRadius = fdiv newWidth (Fin 2);
               x = Fin 35;
               y = Fin 20
           in ([Save, BeginPath,
                MoveTo (fadd x cornerRadius) y,
                ArcTo (fadd x newWidth) y (fadd x newWidth) (fadd y newHeight) cornerRadius,
                ArcTo (fadd x newWidth) (fadd y newHeight) x (fadd y newHeight) cornerRadius,
                ArcTo x (fadd y newHeight) x y cornerRadius,
                ArcTo x y (fadd x newWidth) y cornerRadius,
                ClosePath, Clip,
                DrawImageScaled av x y newWidth newHeight,
                Restore], ic1)))"

definition draw_border :: "colors \<Rightarrow> width_arg \<Rightarrow> string option \<Rightarrow> cmd list" where
  "draw_border c border_width hide_border =
     (if hide_border \<noteq> Some ''true''
      then [StrokeStyle (hash (border_color c)), LineWidth (border_lineWidth border_width),
            StrokeRect (Fin 0) (Fin 0) (Fin 705) (Fin 385)]
      else [])"

subsection \<open>createFullCanvas and the handler\<close>

text \<open>
  The steps in the order of the source. A static image that fails to load throws out
  of \<open>createFullCanvas\<close>; the image cache keeps what was loaded before. The result
  \<open>canvas.toBuffer('image/png')\<close> is the sequence of canvas calls. Reading
  \<open>personaName\<close> of \<open>undefined\<close> throws; on the error object the name is
  \<open>undefined\<close> and \<open>measureText\<close> gets no string (see \<open>draw_steamId\<close>).
\<close>

definition render ::
  "gfx \<Rightarrow> int \<Rightarrow> imageCache \<Rightarrow> data \<Rightarrow> data \<Rightarrow> colors \<Rightarrow> width_arg \<Rightarrow> string option
     \<Rightarrow> (render_error + cmd list) \<times> imageCache" where
  "render g now ic userData gameData c border_width hide_border =
     (case getCachedImage g now ic (asset ''steeeam-canvas.png'') False of
        (Inl e, ic1) \<Rightarrow> (Inl e, ic1)
      | (Inr watermarkImage, ic1) \<Rightarrow>
     (case userData of
        UserData p \<Rightarrow>
     (case draw_steamId c (steamId p) of
        Inl e \<Rightarrow> (Inl e, ic1)
      | Inr id_cmds \<Rightarrow>
     (case getCachedImage g now ic1 (asset ''loc-icon.png'') False of
        (Inl e, ic2) \<Rightarrow> (Inl e, ic2)
      | (Inr locIcon, ic2) \<Rightarrow>
     (case getCachedImage g now ic2 (asset ''seen-icon.png'') False of
        (Inl e, ic3) \<Rightarrow> (Inl e, ic3)
      | (Inr seenIcon, ic3) \<Rightarrow>
     (case getCachedImage g now ic3 (asset ''join-icon.png'') False of
        (Inl e, ic4) \<Rightarrow> (Inl e, ic4)
      | (Inr joinIcon, ic4) \<Rightarrow>
     (case getCachedImage g now ic4 (asset ''game-stats-icon.png'') False of
        (Inl e, ic5) \<Rightarrow> (Inl e, ic5)
      | (Inr gameStatsIcon, ic5) \<Rightarrow>
     (case draw_panel g c gameData of
        Inl e \<Rightarrow> (Inl e, ic5)
      | Inr panel \<Rightarrow>
          (let (avatar_cmds, ic6) =
                 (if avatar p \<noteq> [] then drawCenteredRoundedImage g now ic5 (avatar p)
                  else ([], ic5))
           in (Inr (draw_background c @ draw_watermark_text @ draw_watermark watermarkImage
                    @ draw_username g c (personaName p)
                    @ id_cmds
                    @ draw_location c locIcon (location p)
                    @ draw_lastSeen g c seenIcon (lastLogOff p)
                    @ draw_createdAt g c joinIcon (createdAt p)
                    @ draw_vertical_divider c
                    @ draw_stats_header c gameStatsIcon
                    @ draw_horizontal_divider c
                    @ panel
                    @ avatar_cmds
                    @ draw_border c border_width hide_border), ic6))))))))
      | other \<Rightarrow> (Inl TypeError, ic1)))"

definition createFullCanvas ::
  "gfx \<Rightarrow> int \<Rightarrow> imageCache \<Rightarrow> data \<Rightarrow> data \<Rightarrow> query
     \<Rightarrow> (render_error + cmd list) \<times> imageCache" where
  "createFullCanvas g now ic userData gameData q =
     render g now ic userData gameData
       (apply_theme (q_theme q) (default_colors q))
       (default_border_width (q_border_width q))
       (q_hide_border q)"

text \<open>
  The handler, from the two awaited results on: the image with status 200, or the
  JSON error with status 500 when \<open>createFullCanvas\<close> throws. The
  \<open>Cache-Control\<close> header is set first, on both paths.
\<close>

datatype body = Png "cmd list" | JsonError string

record response =
  status :: nat
  headers :: "(string \<times> string) list"
  payload :: body

definition cache_control :: "string \<times> string" where
  "cache_control =
     (''Cache-Control'', ''public, max-age=3600, s-maxage=3600, stale-while-revalidate=86400'')"

definition handler ::
  "gfx \<Rightarrow> int \<Rightarrow> imageCache \<Rightarrow> data \<Rightarrow> data \<Rightarrow> query \<Rightarrow> response \<times> imageCache" where
  "handler g now ic userData gameData q =
     (case createFullCanvas g now ic userData gameData q of
        (Inr canvasBuffer, ic1) \<Rightarrow>
          (\<lparr>status = 200, headers = [cache_control, (''Content-Type'', ''image/png'')],
            payload = Png canvasBuffer\<rparr>, ic1)
      | (Inl e, ic1) \<Rightarrow>
          (\<lparr>status = 500, headers = [cache_control],
            payload = JsonError ''Failed to generate image''\<rparr>, ic1))"

section \<open>Requests in flight\<close>

text \<open>
  \<open>getUserData\<close> and \<open>getGameData\<close> once more, cut at their \<open>await\<close>s, so that
  other calls can run while a request is in flight. A call runs the body of the request
  promise up to its first \<open>await\<close> and then stores the promise in \<open>pendingRequests\<close>;
  the body goes on, one \<open>await\<close> at a time, when the event loop resumes it. The
  upstream functions return promises: the body never ends before its first \<open>await\<close>.
\<close>

datatype request = UserRequest string | GamesRequest string string

fun cacheKey :: "request \<Rightarrow> string" where
  "cacheKey (UserRequest uid) = ''user_'' @ uid"
| "cacheKey (GamesRequest uid country_code) = ''games_'' @ uid @ ''_'' @ country_code"

fun ttl_of :: "request \<Rightarrow> int" where
  "ttl_of (UserRequest uid) = CACHE_TTL"
| "ttl_of (GamesRequest uid country_code) = GAME_DATA_CACHE_TTL"

text \<open>
  Where a body is suspended: at \<open>await resolveVanityUrl(uid)\<close>, at the
  \<open>await\<close> of the two summaries (\<open>getUserData\<close>), of the owned games or of the
  price lookups (\<open>getGameData\<close>), with the local variables it still needs.
\<close>

datatype continuation =
  AwaitResolve
| AwaitSummaries idval
| AwaitOwnedGames idval
| AwaitPrices "game list"

text \<open>The body up to its first \<open>await\<close>: the upstream request that it sends.\<close>

fun start_body :: "int \<Rightarrow> state \<Rightarrow> request \<Rightarrow> continuation \<times> state" where
  "start_body now st (UserRequest uid) =
     (let steamId = cache st (''steamid_'' @ uid);
          steamIdCached = cache st (''steamid_meta_'' @ uid)
      in if \<not> truthy steamId \<or> \<not> truthy steamIdCached
            \<or> \<not> stamp_valid now steamIdCached STEAMID_CACHE_TTL
         then (AwaitResolve, st\<lparr>calls := calls st @ [ResolveVanity uid]\<rparr>)
         else (AwaitSummaries (id_of (the steamId)),
               st\<lparr>calls := calls st @ [UserSummary (id_of (the steamId)),
                                          FullInfo (id_of (the steamId))]\<rparr>))"
| "start_body now st (GamesRequest uid country_code) =
     (let steamId = cache st (''steamid_'' @ uid)
      in if \<not> truthy steamId
         then (AwaitResolve, st\<lparr>calls := calls st @ [ResolveVanity uid]\<rparr>)
         else (AwaitOwnedGames (id_of (the steamId)),
               st\<lparr>calls := calls st @ [OwnedGames (id_of (the steamId))]\<rparr>))"

text \<open>
  The body from one \<open>await\<close> to the next, or to its end: \<open>Inl\<close> the value the promise
  resolves with (the \<open>catch\<close> turns every failure into the error object), \<open>Inr\<close> the
  next suspension. The responses to the price lookups are consumed in the order of the
  chunks.
\<close>

fun resume_body ::
  "services \<Rightarrow> int \<Rightarrow> state \<Rightarrow> request \<Rightarrow> continuation \<Rightarrow> (data + continuation) \<times> state" where
  "resume_body sv now st (UserRequest uid) AwaitResolve =
     (case resolveVanityUrl sv uid of
        Inl e \<Rightarrow> (Inl (ErrorData ''no user''), st)
      | Inr s \<Rightarrow>
          (Inr (AwaitSummaries (Str s)),
           st\<lparr>cache := (cache st)(''steamid_'' @ uid \<mapsto> Plain (Str s),
                                    ''steamid_meta_'' @ uid \<mapsto> Plain (Stamp now)),
              calls := calls st @ [UserSummary (Str s), FullInfo (Str s)]\<rparr>))"
| "resume_body sv now st (UserRequest uid) (AwaitSummaries sid) =
     (case getUserSummary sv sid of
        Inl e \<Rightarrow> (Inl (ErrorData ''no user''), st)
      | Inr us \<Rightarrow>
          (let sidr = (case steamID64ToFullInfo sv sid of
                         Inl e \<Rightarrow> \<lparr>sidr_onlineState = None, sidr_location = None\<rparr>
                       | Inr r \<Rightarrow> r);
               userData = make_userData sid us sidr
           in (Inl userData,
               st\<lparr>cache := (cache st)(''user_'' @ uid \<mapsto> Entry userData now)\<rparr>)))"
| "resume_body sv now st (GamesRequest uid country_code) AwaitResolve =
     (case resolveVanityUrl sv uid of
        Inl e \<Rightarrow> (Inl (ErrorData ''private games''), st)
      | Inr s \<Rightarrow>
          (Inr (AwaitOwnedGames (Str s)),
           st\<lparr>cache := (cache st)(''steamid_'' @ uid \<mapsto> Plain (Str s)),
              calls := calls st @ [OwnedGames (Str s)]\<rparr>))"
| "resume_body sv now st (GamesRequest uid country_code) (AwaitOwnedGames sid) =
     (case getUserOwnedGames sv sid of
        Inl e \<Rightarrow> (Inl (ErrorData ''private games''), st)
      | Inr userGames \<Rightarrow>
          (Inr (AwaitPrices userGames),
           st\<lparr>calls := calls st @ map (\<lambda>chunk. AppDetails chunk country_code)
                                     (gameIdChunks (gameIds (tally_games userGames)) 0)\<rparr>))"
| "resume_body sv now st (GamesRequest uid country_code) (AwaitPrices userGames) =
     (let gameData = aggregate sv country_code userGames
      in (Inl gameData,
          st\<lparr>cache := (cache st)(''games_'' @ uid @ ''_'' @ country_code
                                     \<mapsto> Entry gameData now)\<rparr>))"
| "resume_body sv now st rq k = (Inl Undefined, st)"

text \<open>
  The event loop: the module state, the bodies suspended at an \<open>await\<close> (by the number
  of their promise), the promises that have resolved with their value, the number of
  promises created and, as instrumentation, the cache keys for which a body was
  started.
\<close>

record loop =
  mem :: state
  suspended :: "nat \<rightharpoonup> request \<times> continuation"
  resolved :: "nat \<rightharpoonup> data"
  promises :: nat
  started :: "string list"

definition idle :: loop where
  "idle = \<lparr>mem = \<lparr>cache = Map.empty, pendingRequests = Map.empty, calls = []\<rparr>,
           suspended = Map.empty, resolved = Map.empty, promises = 0, started = []\<rparr>"

text \<open>
  A call: the cached value, the promise in flight for the key, or a new promise whose
  body is started and which is stored in \<open>pendingRequests\<close>.
\<close>

definition call_request :: "int \<Rightarrow> loop \<Rightarrow> request \<Rightarrow> reply \<times> loop" where
  "call_request now l rq =
     (case cache_hit now (cache (mem l) (cacheKey rq)) (ttl_of rq) of
        Some d \<Rightarrow> (Ready d, l)
      | None \<Rightarrow>
          (case pendingRequests (mem l) (cacheKey rq) of
             Some p \<Rightarrow> (Shared p, l)
           | None \<Rightarrow>
               (let (k, st1) = start_body now (mem l) rq;
                    requestPromise = promises l
                in (Shared requestPromise,
                    l\<lparr>mem := st1\<lparr>pendingRequests :=
                                   (pendingRequests st1)(cacheKey rq \<mapsto> requestPromise)\<rparr>,
                      suspended := (suspended l)(requestPromise \<mapsto> (rq, k)),
                      promises := Suc requestPromise,
                      started := started l @ [cacheKey rq]\<rparr>))))"

text \<open>
  The body of promise \<open>p\<close> goes on to its next \<open>await\<close>, or to its end: then
  \<open>finally\<close> deletes the key from \<open>pendingRequests\<close> and the promise resolves.
\<close>

definition resume :: "services \<Rightarrow> int \<Rightarrow> loop \<Rightarrow> nat \<Rightarrow> loop" where
  "resume sv now l p =
     (case suspended l p of
        None \<Rightarrow> l
      | Some (rq, k) \<Rightarrow>
          (case resume_body sv now (mem l) rq k of
             (Inr k1, st1) \<Rightarrow> l\<lparr>mem := st1, suspended := (suspended l)(p \<mapsto> (rq, k1))\<rparr>
           | (Inl d, st1) \<Rightarrow>
               l\<lparr>mem := st1\<lparr>pendingRequests := (pendingRequests st1)(cacheKey rq := None)\<rparr>,
                 suspended := (suspended l)(p := None),
                 resolved := (resolved l)(p \<mapsto> d)\<rparr>))"

text \<open>Events, with the value of \<open>Date.now()\<close> at each, and what a call answers.\<close>

datatype event = Invoke int request | Resume int nat

fun event_time :: "event \<Rightarrow> int" where
  "event_time (Invoke now rq) = now"
| "event_time (Resume now p) = now"

fun step :: "services \<Rightarrow> loop \<Rightarrow> event \<Rightarrow> reply option \<times> loop" where
  "step sv l (Invoke now rq) = (let (r, l1) = call_request now l rq in (Some r, l1))"
| "step sv l (Resume now p) = (None, resume sv now l p)"

fun run :: "services \<Rightarrow> loop \<Rightarrow> event list \<Rightarrow> reply option list \<times> loop" where
  "run sv l [] = ([], l)"
| "run sv l (e # es) =
     (let (r, l1) = step sv l e;
          (rs, l2) = run sv l1 es
      in (r # rs, l2))"

section \<open>Concrete inputs\<close>

text \<open>
  A font in which every character is 10 wide, images that all load, a profile and a
  library of eleven games of which three were played: the inputs at which the
  theorems below are instantiated.
\<close>

definition demo_gfx :: gfx where
  "demo_gfx =
     \<lparr>measureText = (\<lambda>font s. 10 * of_nat (length s)),
      loadImage = (\<lambda>p. Some (Image p 184 184)),
      fromNow = (\<lambda>t. ''2 days ago''),
      getRelativeTimeImprecise = (\<lambda>t. ''3 years''),
      pricePerHour = (\<lambda>a b. ''$0.50'')\<rparr>"

definition demo_profile :: profile where
  "demo_profile =
     \<lparr>steamId = Str ''76561198000000001'',
      personaName = ''gabe'',
      visible = True,
      avatar = ''https://avatars.example/gabe_full.jpg'',
      lastLogOff = Some 1700000000,
      createdAt = Some 1063407589,
      countryCode = Some ''US'',
      stateCode = None,
      onlineState = Some ''online'',
      location = Some ''Bellevue, Washington''\<rparr>"

definition demo_query :: query where
  "demo_query =
     \<lparr>q_bg_color = None, q_title_color = None, q_sub_title_color = None,
      q_text_color = None, q_username_color = None, q_id_color = None,
      q_cp_color = None, q_ip_color = None, q_div_color = None,
      q_border_color = None, q_border_width = None, q_progbar_bg = None,
      q_progbar_color = None, q_hide_border = None, q_theme = None\<rparr>"

definition eleven_games :: "game list" where
  "eleven_games =
     map (\<lambda>i. \<lparr>game_id = 10 * i, minutes = (if i \<le> 3 then 60 * i else 0)\<rparr>) [1 ..< 12]"

definition demo_services :: services where
  "demo_services =
     \<lparr>resolveVanityUrl = (\<lambda>uid. Inr ''76561198000000001''),
      getUserSummary =
        (\<lambda>sid. Inr \<lparr>us_nickname = ''gabe'', us_visible = True,
                      us_avatar_large = ''https://avatars.example/gabe_full.jpg'',
                      us_lastLogOffTimestamp = Some 1700000000,
                      us_createdTimestamp = Some 1063407589,
                      us_countryCode = Some ''US'', us_stateCode = None\<rparr>),
      steamID64ToFullInfo = (\<lambda>sid. Inl TimedOut),
      getUserOwnedGames = (\<lambda>sid. Inr eleven_games),
      appdetails = (\<lambda>ids cc. Inr (map (\<lambda>i. Some \<lparr>final = Some 999, initial = Some 1999\<rparr>) ids)),
      formatter_format =
        (\<lambda>x. case x of Fin r \<Rightarrow> CHR ''$'' # show_nat (nat \<lfloor>r\<rfloor>) | other \<Rightarrow> ''$NaN''),
      getAverage = (\<lambda>xs. fdiv (Fin (of_nat (sum_list xs))) (Fin (of_nat (length xs)))),
      minutesToHoursCompact = (\<lambda>m. show_nat (m div 60)),
      minutesToHoursPrecise =
        (\<lambda>x. case x of Fin r \<Rightarrow> show_nat (nat \<lfloor>r / 60\<rfloor>) | other \<Rightarrow> ''0'')\<rparr>"

definition empty_state :: state where
  "empty_state = \<lparr>cache = Map.empty, pendingRequests = Map.empty, calls = []\<rparr>"

text \<open>
  A cache whose resolved id for \<open>gabe\<close> was stored at time 0, read eight days later.
\<close>

definition stale_state :: state where
  "stale_state =
     empty_state\<lparr>cache := [''steamid_gabe'' \<mapsto> Plain (Str ''123''),
                              ''steamid_meta_gabe'' \<mapsto> Plain (Stamp 0)]\<rparr>"

definition eight_days :: int where
  "eight_days = 8 * 24 * 60 * 60 * 1000"

definition demo_gameData :: data where
  "demo_gameData =
     GameData
       \<lparr>totalInitialFormatted = ''$219.89'', totalFinalFormatted = ''$109.89'',
        averageGamePrice = ''$19.99'', totalPlaytimeHours = ''6'',
        averagePlaytime = ''2.0'', totalGames = 11\<rparr>
       \<lparr>playedCount = 3, unplayedCount = 8, totalPlaytime = 360\<rparr>"

definition no_avatar_gfx :: gfx where
  "no_avatar_gfx =
     demo_gfx\<lparr>loadImage := (\<lambda>p. if p = avatar demo_profile then None
                                  else Some (Image p 184 184))\<rparr>"

definition failing_services :: services where
  "failing_services = demo_services\<lparr>getUserSummary := (\<lambda>sid. Inl TimedOut)\<rparr>"

definition after_failure :: state where
  "after_failure = snd (getUserData failing_services 0 empty_state ''gabe'')"

text \<open>
  A service for which only the library of \<open>gabe\<close> is private, and one that cannot
  resolve any name while its owned-games request works.
\<close>

definition private_gabe :: services where
  "private_gabe =
     demo_services\<lparr>getUserOwnedGames :=
       (\<lambda>sid. if sid = Str ''76561198000000001'' then Inl Forbidden else Inr eleven_games)\<rparr>"

definition unresolvable :: services where
  "unresolvable = demo_services\<lparr>resolveVanityUrl := (\<lambda>uid. Inl NotFound)\<rparr>"

text \<open>
  A first request for the profile of \<open>gabe\<close>, then, while it is in flight: a second
  request for it, the first \<open>await\<close> of the body finishing, and a third request.
\<close>

definition first_call :: loop where
  "first_call = snd (call_request 0 idle (UserRequest ''gabe''))"

definition demo_events :: "event list" where
  "demo_events =
     [Invoke 1 (UserRequest ''gabe''), Resume 2 0, Invoke 3 (UserRequest ''gabe'')]"

definition later :: loop where
  "later = snd (run demo_services first_call demo_events)"

section \<open>Bounds on the rounding error\<close>

text \<open>
  Half a unit in the last place of a double, relative to its value (\<open>eps\<close>), and
  half the least subnormal (\<open>tiny\<close>).
\<close>

definition eps :: rat where
  "eps = 1 / 2 ^ 53"

definition tiny :: rat where
  "tiny = 1 / 2 ^ 1075"

section \<open>Notions used to state the properties\<close>

text \<open>An integer written in decimal, the form of a whole-number \<open>border_width\<close>.\<close>

definition show_int :: "int \<Rightarrow> string" where
  "show_int z = (if z < 0 then CHR ''-'' # show_nat (nat (- z)) else show_nat (nat z))"

text \<open>
  An image can be had when the cache holds it and the entry is still valid, or when it
  loads. The static images are cached for \<open>CACHE_TTL\<close>, the avatar for
  \<open>AVATAR_CACHE_TTL\<close>.
\<close>

definition available :: "gfx \<Rightarrow> int \<Rightarrow> imageCache \<Rightarrow> string \<Rightarrow> int \<Rightarrow> bool" where
  "available g now ic imagePath ttl =
     ((case ic (''img_'' @ imagePath) of
         None \<Rightarrow> False
       | Some (img, timestamp) \<Rightarrow> isCacheValid now timestamp ttl)
      \<or> loadImage g imagePath \<noteq> None)"

definition static_images :: "string list" where
  "static_images =
     [''steeeam-canvas.png'', ''loc-icon.png'', ''seen-icon.png'', ''join-icon.png'',
      ''game-stats-icon.png'']"

text \<open>
  Every suspended body has its promise stored in \<open>pendingRequests\<close> at its key; a
  request \<open>rq\<close> in flight as promise \<open>p\<close>, the cache holding \<open>c\<close> at its key and \<open>n\<close>
  bodies started for the key so far; the number of \<open>await\<close>s a body has before it.
\<close>

definition consistent :: "loop \<Rightarrow> bool" where
  "consistent l \<longleftrightarrow>
     (\<forall>p rq k. suspended l p = Some (rq, k)
        \<longrightarrow> p < promises l \<and> pendingRequests (mem l) (cacheKey rq) = Some p)"

definition in_flight :: "request \<Rightarrow> nat \<Rightarrow> cached option \<Rightarrow> nat \<Rightarrow> loop \<Rightarrow> bool" where
  "in_flight rq p c n l \<longleftrightarrow>
     (\<exists>k. suspended l p = Some (rq, k))
     \<and> pendingRequests (mem l) (cacheKey rq) = Some p
     \<and> cache (mem l) (cacheKey rq) = c
     \<and> count_list (started l) (cacheKey rq) = n"

fun remaining :: "continuation \<Rightarrow> nat" where
  "remaining AwaitResolve = 3"
| "remaining (AwaitOwnedGames sid) = 2"
| "remaining (AwaitSummaries sid) = 1"
| "remaining (AwaitPrices userGames) = 1"

section \<open>Rounding to a double: exact on integers, small relative error\<close>

lemma expo_le:
  assumes "x \<noteq> 0"
  shows "2 powi (expo x) \<le> \<bar>x\<bar>"
proof -
  obtain a b where q: "quotient_of \<bar>x\<bar> = (a, b)" by fastforce
  have b: "b > 0" by (rule quotient_of_denom_pos [OF q])
  have xab: "\<bar>x\<bar> = of_int a / of_int b" by (rule quotient_of_div [OF q])
  have a: "a > 0"
  proof (rule ccontr)
    assume "\<not> a > 0"
    then have "(of_int a :: rat) \<le> 0" by simp
    with b have "(of_int a :: rat) / of_int b \<le> 0" by (simp add: divide_nonpos_pos)
    with xab assms show False by simp
  qed
  define d where "d = bitlen a - bitlen b"
  have ex: "expo x = (if 2 powi d \<le> \<bar>x\<bar> then d else d - 1)"
    by (simp add: expo_def q d_def Let_def)
  have la: "bitlen a \<ge> 1" and lb: "bitlen b \<ge> 1"
    using a b by (auto simp: bitlen_alt_def)
  have "2 ^ nat (bitlen a - 1) \<le> a" using bitlen_bounds [OF a] by simp
  then have "(of_int (2 ^ nat (bitlen a - 1)) :: rat) \<le> of_int a" by (simp only: of_int_le_iff)
  then have A: "(2::rat) powi (bitlen a - 1) \<le> of_int a"
    using la by (simp add: power_int_nonneg_exp)
  have "b < 2 ^ nat (bitlen b)" using bitlen_bounds [OF b] by simp
  then have "(of_int b :: rat) < of_int (2 ^ nat (bitlen b))" by (simp only: of_int_less_iff)
  then have B: "(of_int b :: rat) \<le> 2 powi (bitlen b)"
    using lb by (simp add: power_int_nonneg_exp)
  have "d - 1 = (bitlen a - 1) - bitlen b" by (simp add: d_def)
  then have "(2::rat) powi (d - 1) = 2 powi ((bitlen a - 1) - bitlen b)" by (rule arg_cong)
  also have "\<dots> = 2 powi (bitlen a - 1) / 2 powi (bitlen b)"
    by (rule power_int_diff) simp
  finally have "(2::rat) powi (d - 1) = 2 powi (bitlen a - 1) / 2 powi (bitlen b)" .
  moreover have "2 powi (bitlen a - 1) / 2 powi (bitlen b) \<le> (of_int a :: rat) / of_int b"
    using A B a b by (intro frac_le) simp_all
  ultimately have "(2::rat) powi (d - 1) \<le> \<bar>x\<bar>" by (simp add: xab)
  with ex show ?thesis by simp
qed

lemma rne_err: "\<bar>of_int (rne m) - m\<bar> \<le> 1 / 2"
proof -
  have "of_int \<lfloor>m\<rfloor> \<le> m" "m < of_int \<lfloor>m\<rfloor> + 1" by linarith+
  then show ?thesis by (auto simp: rne_def Let_def)
qed

lemma rne_of_int: "rne (of_int z) = z"
  by (simp add: rne_def)


lemma rnd_err: "\<bar>rnd x - x\<bar> \<le> \<bar>x\<bar> * eps + tiny"
proof (cases "x = 0")
  case True
  then show ?thesis by (simp add: rnd_def eps_def tiny_def)
next
  case False
  define k where "k = max (expo x - 52) (- 1074)"
  define P where "P = (2::rat) powi k"
  have P: "P > 0" by (simp add: P_def)
  have r: "rnd x = of_int (rne (x / P)) * P"
    using False by (simp add: rnd_def k_def P_def Let_def)
  have "rnd x - x = (of_int (rne (x / P)) - x / P) * P"
    using P by (simp add: r algebra_simps)
  then have "\<bar>rnd x - x\<bar> = \<bar>of_int (rne (x / P)) - x / P\<bar> * P"
    using P by (simp add: abs_mult)
  also have "\<dots> \<le> (1 / 2) * P"
    using rne_err [of "x / P"] P by (intro mult_right_mono) simp_all
  finally have e: "\<bar>rnd x - x\<bar> \<le> P / 2" by simp
  have "P / 2 \<le> \<bar>x\<bar> * eps + tiny"
  proof (cases "expo x - 52 \<ge> - 1074")
    case True
    then have "k = expo x - 52" by (simp add: k_def)
    then have "P = 2 powi (expo x) / 2 ^ 52" by (simp add: P_def power_int_diff)
    then have "P / 2 = 2 powi (expo x) * eps" by (simp add: eps_def)
    also have "\<dots> \<le> \<bar>x\<bar> * eps"
      using expo_le [OF False] by (intro mult_right_mono) (simp_all add: eps_def)
    finally show ?thesis by (simp add: tiny_def)
  next
    case False
    then have "k = - 1074" by (simp add: k_def)
    then have "P = 1 / 2 ^ 1074" by (simp add: P_def power_int_minus_divide)
    then have "P / 2 = tiny" by (simp add: tiny_def)
    then show ?thesis by (simp add: eps_def)
  qed
  with e show ?thesis by linarith
qed

lemma rnd_dyadic:
  assumes "\<bar>z\<bar> < 2 ^ 53" and "n \<le> 1074"
  shows "rnd (of_int z / 2 ^ n) = of_int z / 2 ^ n"
proof (cases "z = 0")
  case True
  then show ?thesis by (simp add: rnd_def)
next
  case False
  define x where "x = (of_int z :: rat) / 2 ^ n"
  have x0: "x \<noteq> 0" using False by (simp add: x_def)
  define k where "k = max (expo x - 52) (- 1074)"
  have "\<bar>x\<bar> = of_int \<bar>z\<bar> / 2 ^ n" by (simp add: x_def)
  moreover have "(of_int \<bar>z\<bar> :: rat) < of_int (2 ^ 53)" using assms(1) by (simp only: of_int_less_iff)
  ultimately have "\<bar>x\<bar> < 2 ^ 53 / 2 ^ n" by (simp add: divide_strict_right_mono)
  also have "\<dots> = 2 powi (53 - int n)"
    using power_int_diff [of "2::rat" 53 "int n"] by simp
  finally have "\<bar>x\<bar> < 2 powi (53 - int n)" .
  with expo_le [OF x0] have lt: "(2::rat) powi (expo x) < 2 powi (53 - int n)" by simp
  have "expo x < 53 - int n"
  proof (rule ccontr)
    assume "\<not> expo x < 53 - int n"
    then have "(2::rat) powi (53 - int n) \<le> 2 powi (expo x)"
      by (intro power_int_increasing) simp_all
    with lt show False by simp
  qed
  then have k: "k \<le> - int n" using assms(2) by (simp add: k_def)
  define m where "m = nat (- k - int n)"
  have km: "k = - int (m + n)" using k by (simp add: m_def)
  have P: "(2::rat) powi k = 1 / 2 ^ (m + n)" by (simp only: km power_int_minus_divide power_int_of_nat)
  have "x / 2 powi k = of_int (z * 2 ^ m)" by (simp add: P x_def power_add)
  then have "rne (x / 2 powi k) = z * 2 ^ m" by (simp only: rne_of_int)
  then have "rnd x = of_int (z * 2 ^ m) * 2 powi k"
    using x0 by (simp add: rnd_def k_def Let_def)
  then show ?thesis by (simp add: P x_def power_add)
qed

lemma rnd_of_int:
  assumes "\<bar>z\<bar> < 2 ^ 53"
  shows "rnd (of_int z) = of_int z"
  using rnd_dyadic [OF assms, of 0] by simp

lemma dbl_half:
  assumes "\<bar>z\<bar> < 2 ^ 53"
  shows "dbl (of_int z / 2) = Fin (of_int z / 2)"
proof -
  have r: "rnd (of_int z / 2) = of_int z / 2" using rnd_dyadic [OF assms, of 1] by simp
  have "(of_int \<bar>z\<bar> :: rat) < of_int (2 ^ 53)" using assms by (simp only: of_int_less_iff)
  then have "\<bar>of_int z :: rat\<bar> < 2 ^ 53" by simp
  moreover have "(2::rat) ^ 53 < 2 ^ 1024" by simp
  ultimately have "\<bar>of_int z / 2 :: rat\<bar> < 2 ^ 1024" by simp
  then have "\<not> 2 ^ 1024 \<le> (of_int z / 2 :: rat)" "\<not> (of_int z / 2 :: rat) \<le> - (2 ^ 1024)"
    by linarith+
  then show ?thesis unfolding dbl_def r Let_def by (simp only: if_False)
qed

lemma dbl_of_int:
  assumes "\<bar>z\<bar> < 2 ^ 53"
  shows "dbl (of_int z) = Fin (of_int z)"
proof -
  have "(of_int \<bar>z\<bar> :: rat) < of_int (2 ^ 53)" using assms by (simp only: of_int_less_iff)
  then have "\<bar>of_int z :: rat\<bar> < 2 ^ 53" by simp
  moreover have "(2::rat) ^ 53 < 2 ^ 1024" by simp
  ultimately have "\<bar>of_int z :: rat\<bar> < 2 ^ 1024" by linarith
  then have "\<not> 2 ^ 1024 \<le> (of_int z :: rat)" "\<not> (of_int z :: rat) \<le> - (2 ^ 1024)" by linarith+
  then show ?thesis
    unfolding dbl_def rnd_of_int [OF assms] Let_def by (simp only: if_False)
qed

lemma dbl_numeral [simp]:
  "(numeral n :: int) < 2 ^ 53 \<Longrightarrow> dbl (numeral n) = Fin (numeral n)"
  using dbl_of_int [of "numeral n"] by simp

lemma dbl_neg_numeral [simp]:
  "(numeral n :: int) < 2 ^ 53 \<Longrightarrow> dbl (- numeral n) = Fin (- numeral n)"
  using dbl_of_int [of "- numeral n"] by simp

lemma dbl_0 [simp]: "dbl 0 = Fin 0"
  using dbl_of_int [of 0] by simp

lemma dbl_1 [simp]: "dbl 1 = Fin 1"
  using dbl_of_int [of 1] by simp


section \<open>Decimal digit strings and their conversions\<close>

lemma digit_char:
  assumes "d < 10"
  shows "is_digit (char_of (48 + d))" and "digit_val (char_of (48 + d)) = d"
  using assms by (simp_all add: is_digit_def digit_val_def)

lemma is_digit_not:
  assumes "is_digit c"
  shows "\<not> is_ws c" "c \<noteq> CHR ''-''" "c \<noteq> CHR ''+''" "c \<noteq> CHR ''x''" "c \<noteq> CHR ''X''"
    "c \<noteq> CHR ''o''" "c \<noteq> CHR ''O''" "c \<noteq> CHR ''b''" "c \<noteq> CHR ''B''" "c \<noteq> CHR ''I''"
  using assms by (auto simp: is_digit_def is_ws_def)

lemma show_nat_digits: "list_all is_digit (show_nat n)"
proof (induction n rule: show_nat.induct)
  case (1 n)
  show ?case
  proof (cases "n < 10")
    case True
    then show ?thesis by (subst show_nat.simps) (simp add: digit_char)
  next
    case False
    have "n mod 10 < 10" by simp
    with False 1 show ?thesis by (subst show_nat.simps) (simp add: digit_char)
  qed
qed

lemma digits_val_snoc: "digits_val r (ds @ [c]) = digits_val r ds * r + digit_val c"
  by (simp add: digits_val_def)

lemma digits_val_show_nat: "digits_val 10 (show_nat n) = n"
proof (induction n rule: show_nat.induct)
  case (1 n)
  show ?case
  proof (cases "n < 10")
    case True
    then show ?thesis by (subst show_nat.simps) (simp add: digits_val_def digit_char)
  next
    case False
    have "n mod 10 < 10" by simp
    with False 1 show ?thesis
      by (subst show_nat.simps) (simp add: digits_val_snoc digit_char)
  qed
qed

lemma show_nat_nonempty: "show_nat n \<noteq> []"
  by (subst show_nat.simps) simp

text \<open>A non-empty string of decimal digits reads as its value, by both conversions.\<close>

lemma take2_digits:
  assumes "list_all is_digit ds" and "\<not> is_digit y"
  shows "take 2 ds \<noteq> [x, y]"
proof (cases ds)
  case Nil
  then show ?thesis by simp
next
  case (Cons a as)
  then show ?thesis using assms by (cases as) auto
qed

lemma parseInt_digits:
  assumes "ds \<noteq> []" and "list_all is_digit ds"
  shows "parseInt ds = dbl (of_nat (digits_val 10 ds))"
proof -
  obtain a as where ds: "ds = a # as" using assms(1) by (cases ds) auto
  have a: "is_digit a" using assms(2) ds by simp
  have ws: "dropWhile is_ws ds = ds" using a ds by (simp add: is_digit_not)
  have sg: "hd ds \<noteq> CHR ''-''" "hd ds \<noteq> CHR ''+''" using a ds by (simp_all add: is_digit_not)
  have hx: "take 2 ds \<noteq> ''0x''" "take 2 ds \<noteq> ''0X''"
    by (rule take2_digits [OF assms(2)], simp add: is_digit_def)+
  have tw: "takeWhile is_digit ds = ds" using assms(2) by (simp add: list_all_iff)
  show ?thesis
    using assms(1) by (simp add: parseInt_def ws sg hx tw Let_def)
qed

lemma parseInt_neg_digits:
  assumes "ds \<noteq> []" and "list_all is_digit ds"
  shows "parseInt (CHR ''-'' # ds) = dbl (- of_nat (digits_val 10 ds))"
proof -
  have hx: "take 2 ds \<noteq> ''0x''" "take 2 ds \<noteq> ''0X''"
    by (rule take2_digits [OF assms(2)], simp add: is_digit_def)+
  have tw: "takeWhile is_digit ds = ds" using assms(2) by (simp add: list_all_iff)
  have "\<not> is_ws CHR ''-''" by (simp add: is_ws_def)
  then show ?thesis
    using assms(1) by (simp add: parseInt_def hx tw Let_def)
qed

lemma unsigned_decimal_digits:
  assumes "ds \<noteq> []" and "list_all is_digit ds"
  shows "unsigned_decimal ds = dbl (of_nat (digits_val 10 ds))"
proof -
  obtain a as where ds: "ds = a # as" using assms(1) by (cases ds) auto
  have a: "is_digit a" using assms(2) ds by simp
  have inf: "ds \<noteq> ''Infinity''" using a ds by (auto simp: is_digit_not)
  have tw: "takeWhile is_digit ds = ds" "dropWhile is_digit ds = []"
    using assms(2) by (simp_all add: list_all_iff)
  show ?thesis
    using assms(1) by (simp add: unsigned_decimal_def inf tw Let_def digits_val_def)
qed

lemma trim_digits:
  assumes "ds \<noteq> []" and "list_all is_digit ds"
  shows "trim ds = ds"
proof -
  obtain a as where ds: "ds = a # as" using assms(1) by (cases ds) auto
  have a: "is_digit a" using assms(2) ds by simp
  have ws: "dropWhile is_ws ds = ds" using a ds by (simp add: is_digit_not)
  have "rev ds \<noteq> []" using assms(1) by simp
  then obtain b bs where r: "rev ds = b # bs" by (cases "rev ds") auto
  have "b \<in> set ds" using r by (metis list.set_intros(1) set_rev)
  then have "is_digit b" using assms(2) by (simp add: list_all_iff)
  then have "dropWhile is_ws (rev ds) = rev ds" using r by (simp add: is_digit_not)
  then show ?thesis by (simp add: trim_def ws)
qed

lemma toNumber_digits:
  assumes "ds \<noteq> []" and "list_all is_digit ds"
  shows "toNumber ds = dbl (of_nat (digits_val 10 ds))"
proof -
  obtain a as where ds: "ds = a # as" using assms(1) by (cases ds) auto
  have a: "is_digit a" using assms(2) ds by simp
  have sg: "hd ds \<noteq> CHR ''-''" "hd ds \<noteq> CHR ''+''" using a ds by (simp_all add: is_digit_not)
  have hx: "take 2 ds \<noteq> ''0x''" "take 2 ds \<noteq> ''0X''" "take 2 ds \<noteq> ''0o''"
    "take 2 ds \<noteq> ''0O''" "take 2 ds \<noteq> ''0b''" "take 2 ds \<noteq> ''0B''"
    by (rule take2_digits [OF assms(2)], simp add: is_digit_def)+
  show ?thesis
    using assms(1)
    by (simp add: toNumber_def trim_digits [OF assms] sg hx Let_def
          unsigned_decimal_digits [OF assms])
qed

lemma toNumber_neg_digits:
  assumes "ds \<noteq> []" and "list_all is_digit ds"
  shows "toNumber (CHR ''-'' # ds) = fneg (dbl (of_nat (digits_val 10 ds)))"
proof -
  have m: "\<not> is_ws CHR ''-''" "\<not> is_digit CHR ''-''" by (simp_all add: is_ws_def is_digit_def)
  have "rev ds \<noteq> []" using assms(1) by simp
  then obtain b bs where r: "rev ds = b # bs" by (cases "rev ds") auto
  have "b \<in> set ds" using r by (metis list.set_intros(1) set_rev)
  then have "is_digit b" using assms(2) by (simp add: list_all_iff)
  then have "dropWhile is_ws (rev ds @ ''-'') = rev ds @ ''-''" using r by (simp add: is_digit_not)
  then have t: "trim (CHR ''-'' # ds) = CHR ''-'' # ds" using m by (simp add: trim_def)
  have hx: "take 2 (CHR ''-'' # ds) \<noteq> ''0x''" "take 2 (CHR ''-'' # ds) \<noteq> ''0X''"
    "take 2 (CHR ''-'' # ds) \<noteq> ''0o''" "take 2 (CHR ''-'' # ds) \<noteq> ''0O''"
    "take 2 (CHR ''-'' # ds) \<noteq> ''0b''" "take 2 (CHR ''-'' # ds) \<noteq> ''0B''"
    by (cases ds; simp)+
  show ?thesis
    by (simp add: toNumber_def t hx Let_def unsigned_decimal_digits [OF assms])
qed

lemma parseInt_show_nat:
  assumes "n < 2 ^ 53"
  shows "parseInt (show_nat n) = Fin (of_nat n)"
proof -
  have "int n < 2 ^ 53" using assms by (metis of_nat_less_iff of_nat_numeral of_nat_power)
  then have "dbl (of_int (int n)) = Fin (of_int (int n))" by (intro dbl_of_int) simp
  then show ?thesis
    by (simp add: parseInt_digits [OF show_nat_nonempty show_nat_digits] digits_val_show_nat)
qed

section \<open>The library aggregator counts played and unplayed games\<close>

lemma tally_item_counts:
  "playedCount (counts (tally_item a g)) =
     playedCount (counts a) + (if minutes g > 0 then 1 else 0)"
  "unplayedCount (counts (tally_item a g)) =
     unplayedCount (counts a) + (if minutes g > 0 then 0 else 1)"
  "totalPlaytime (counts (tally_item a g)) =
     totalPlaytime (counts a) + (if minutes g > 0 then minutes g else 0)"
  "gameIds (tally_item a g) = gameIds a @ [game_id g]"
  "playtime (tally_item a g) = playtime a @ (if minutes g > 0 then [minutes g] else [])"
  by (simp_all add: tally_item_def Let_def)

lemma foldl_tally:
  "playedCount (counts (foldl tally_item a gs)) =
     playedCount (counts a) + length (filter (\<lambda>g. minutes g > 0) gs)"
  "unplayedCount (counts (foldl tally_item a gs)) =
     unplayedCount (counts a) + length (filter (\<lambda>g. \<not> minutes g > 0) gs)"
  "totalPlaytime (counts (foldl tally_item a gs)) =
     totalPlaytime (counts a) + sum_list (map minutes (filter (\<lambda>g. minutes g > 0) gs))"
  "gameIds (foldl tally_item a gs) = gameIds a @ map game_id gs"
  "playtime (foldl tally_item a gs) =
     playtime a @ map minutes (filter (\<lambda>g. minutes g > 0) gs)"
  by (induction gs arbitrary: a) (simp_all add: tally_item_counts)

lemma played_unplayed_total:
  "length (filter (\<lambda>g. 0 < minutes g) gs) + length (filter (\<lambda>g. minutes g = 0) gs)
     = length gs"
  by (induction gs) auto

lemma aggregate_GameData:
  "aggregate sv cc gs =
     make_gameData sv gs (tally_games gs)
       (foldl (price_chunk sv cc) \<lparr>prices = [], totalInitial = 0, totalFinal = 0\<rparr>
          (gameIdChunks (gameIds (tally_games gs)) 0))"
  by (simp add: aggregate_def Let_def)

lemma aggregate_counts:
  "\<exists>t. aggregate sv cc gs = GameData t (counts (tally_games gs)) \<and> totalGames t = length gs"
  by (simp add: aggregate_GameData make_gameData_def)

lemma tally_counts:
  "playedCount (counts (tally_games gs)) = length (filter (\<lambda>g. minutes g > 0) gs)"
  "unplayedCount (counts (tally_games gs)) = length (filter (\<lambda>g. \<not> minutes g > 0) gs)"
  "totalPlaytime (counts (tally_games gs))
     = sum_list (map minutes (filter (\<lambda>g. minutes g > 0) gs))"
  by (simp_all add: tally_games_def foldl_tally)

text \<open>
  Claim C8. For every list of owned games, the result of the aggregator counts as
  played exactly the games with more than 0 minutes of playtime and as unplayed all
  the others; the two counts add up to the total number of games, and the total
  playtime is the sum of the minutes of the played games. (Playtime is a count of
  minutes, as Steam reports it: a natural number.)
\<close>

theorem aggregate_partitions_games:
  "\<exists>t pc. aggregate sv cc gs = GameData t pc
     \<and> totalGames t = length gs
     \<and> playedCount pc = length (filter (\<lambda>g. minutes g > 0) gs)
     \<and> unplayedCount pc = length (filter (\<lambda>g. \<not> minutes g > 0) gs)
     \<and> playedCount pc + unplayedCount pc = totalGames t
     \<and> totalPlaytime pc = sum_list (map minutes (filter (\<lambda>g. minutes g > 0) gs))"
  unfolding aggregate_GameData make_gameData_def tally_games_def
  by (simp add: foldl_tally played_unplayed_total)

section \<open>Themes and the custom palette\<close>

lemmas draw_defs =
  draw_background_def draw_watermark_text_def draw_watermark_def draw_username_def
  draw_steamId_def draw_location_def draw_lastSeen_def draw_createdAt_def
  draw_vertical_divider_def draw_stats_header_def draw_horizontal_divider_def
  draw_panel_def draw_stats_def draw_stat_blocks_def stat_block_def draw_counter_def
  createRoundedProgressBar_def roundRect_def draw_private_def draw_border_def
  drawCenteredRoundedImage_def

lemma themed_colors:
  assumes "th = Some ''dark'' \<or> th = Some ''light''"
    and "q_cp_color q' = q_cp_color q" and "q_ip_color q' = q_ip_color q"
  shows "apply_theme th (default_colors q') = apply_theme th (default_colors q)"
  using assms by (auto simp: apply_theme_def default_colors_def)

text \<open>
  Claim C1, as amended. When \<open>theme\<close> is \<open>dark\<close> or \<open>light\<close>, the card does not
  depend on the ten colour arguments the theme sets (background, title, sub-title,
  text, username, id, divider, border, progress bar and its background): two requests
  that agree on the theme, on \<open>cp_color\<close>, \<open>ip_color\<close>, \<open>border_width\<close> and
  \<open>hide_border\<close> give the same image. The themes do not set \<open>cp_color\<close> and
  \<open>ip_color\<close>.
\<close>

theorem theme_overrides_ten_colors:
  assumes "q_theme q = Some ''dark'' \<or> q_theme q = Some ''light''"
    and "q_theme q' = q_theme q"
    and "q_cp_color q' = q_cp_color q" and "q_ip_color q' = q_ip_color q"
    and "q_border_width q' = q_border_width q" and "q_hide_border q' = q_hide_border q"
  shows "createFullCanvas g now ic userData gameData q'
           = createFullCanvas g now ic userData gameData q"
  using assms themed_colors [of "q_theme q" q' q]
  by (simp add: createFullCanvas_def)

text \<open>
  At the dark theme, a request with \<open>bg_color=fff\<close> and a progress bar colour gives
  the image of the request without them.
\<close>

theorem theme_overrides_ten_colors_witness:
  "q_theme (demo_query\<lparr>q_theme := Some ''dark''\<rparr>) = Some ''dark''
   \<and> createFullCanvas demo_gfx 0 Map.empty (UserData demo_profile) demo_gameData
         (demo_query\<lparr>q_theme := Some ''dark'', q_bg_color := Some ''fff'',
                      q_progbar_color := Some ''123456''\<rparr>)
       = createFullCanvas demo_gfx 0 Map.empty (UserData demo_profile) demo_gameData
           (demo_query\<lparr>q_theme := Some ''dark''\<rparr>)"
  using theme_overrides_ten_colors
          [of "demo_query\<lparr>q_theme := Some ''dark''\<rparr>"
              "demo_query\<lparr>q_theme := Some ''dark'', q_bg_color := Some ''fff'',
                           q_progbar_color := Some ''123456''\<rparr>"
              demo_gfx 0 Map.empty "UserData demo_profile" demo_gameData]
  by simp

text \<open>
  The claim as stated fails for \<open>cp_color\<close>: under the dark theme, \<open>cp_color=000\<close>
  changes the image (the current price is drawn in \<open>#000\<close>).
\<close>

theorem theme_keeps_cp_color_counterexample:
  "fst (createFullCanvas demo_gfx 0 Map.empty (UserData demo_profile) demo_gameData
          (demo_query\<lparr>q_theme := Some ''dark'', q_cp_color := Some ''000''\<rparr>))
   \<noteq> fst (createFullCanvas demo_gfx 0 Map.empty (UserData demo_profile) demo_gameData
          (demo_query\<lparr>q_theme := Some ''dark''\<rparr>))"
  by (simp add: createFullCanvas_def render_def getCachedImage_def demo_gfx_def
        demo_profile_def demo_gameData_def demo_query_def apply_theme_def default_colors_def
        dflt_def default_border_width_def draw_defs hash_def asset_def Let_def
        split: prod.splits)

section \<open>Images that fail to load\<close>

lemma ttl_pos: "0 < CACHE_TTL" "0 < AVATAR_CACHE_TTL"
  by (simp_all add: CACHE_TTL_def AVATAR_CACHE_TTL_def)

lemma getCachedImage_result:
  assumes "getCachedImage g now ic path av = (r, ic1)"
  shows "isl r = (\<not> available g now ic path (if av then AVATAR_CACHE_TTL else CACHE_TTL))"
  using assms
  by (auto simp: getCachedImage_def available_def Let_def split: option.splits if_splits)

lemma getCachedImage_keeps:
  assumes "getCachedImage g now ic path av = (r, ic1)" and "0 < t"
  shows "available g now ic1 p t = available g now ic p t"
  using assms
  by (auto simp: getCachedImage_def available_def isCacheValid_def Let_def
        split: option.splits if_splits)

lemma avatar_skipped:
  assumes "\<not> available g now ic url AVATAR_CACHE_TTL"
  shows "drawCenteredRoundedImage g now ic url = ([], ic)"
proof -
  obtain r ic1 where c: "getCachedImage g now ic url True = (r, ic1)" by fastforce
  from getCachedImage_result [OF c] assms have "isl r" by simp
  then obtain e where r: "r = Inl e" by (cases r) auto
  from c r have "ic1 = ic"
    by (auto simp: getCachedImage_def Let_def split: option.splits if_splits)
  with c r show ?thesis by (simp add: drawCenteredRoundedImage_def)
qed

lemma draw_steamId_result: "isl (draw_steamId c sid) = (\<forall>s. sid \<noteq> Str s)"
  by (cases sid) (simp_all add: draw_steamId_def)

lemma draw_panel_result: "isl (draw_panel g c gd) = (gd = Undefined)"
  by (cases gd) (simp_all add: draw_panel_def)

lemma render_profile:
  fixes p :: profile
  defines "t \<equiv> CACHE_TTL"
  shows "isl (fst (render g now ic (UserData p) gd c bw hb)) =
           (\<not> ((\<forall>name \<in> set static_images. available g now ic (asset name) t)
               \<and> (\<exists>s. steamId p = Str s) \<and> gd \<noteq> Undefined))"
    and "\<not> available g now ic (avatar p) AVATAR_CACHE_TTL \<Longrightarrow>
           render g now ic (UserData p) gd c bw hb
             = render g now ic (UserData (p\<lparr>avatar := []\<rparr>)) gd c bw hb"
proof -
  obtain r1 ic1 where g1: "getCachedImage g now ic (asset ''steeeam-canvas.png'') False = (r1, ic1)"
    by fastforce
  obtain r2 ic2 where g2: "getCachedImage g now ic1 (asset ''loc-icon.png'') False = (r2, ic2)"
    by fastforce
  obtain r3 ic3 where g3: "getCachedImage g now ic2 (asset ''seen-icon.png'') False = (r3, ic3)"
    by fastforce
  obtain r4 ic4 where g4: "getCachedImage g now ic3 (asset ''join-icon.png'') False = (r4, ic4)"
    by fastforce
  obtain r5 ic5 where g5: "getCachedImage g now ic4 (asset ''game-stats-icon.png'') False = (r5, ic5)"
    by fastforce
  have k1: "available g now ic1 x u = available g now ic x u" if "0 < u" for x u
    using getCachedImage_keeps [OF g1 that] .
  have k2: "available g now ic2 x u = available g now ic x u" if "0 < u" for x u
    using getCachedImage_keeps [OF g2 that] k1 [OF that] by simp
  have k3: "available g now ic3 x u = available g now ic x u" if "0 < u" for x u
    using getCachedImage_keeps [OF g3 that] k2 [OF that] by simp
  have k4: "available g now ic4 x u = available g now ic x u" if "0 < u" for x u
    using getCachedImage_keeps [OF g4 that] k3 [OF that] by simp
  have k5: "available g now ic5 x u = available g now ic x u" if "0 < u" for x u
    using getCachedImage_keeps [OF g5 that] k4 [OF that] by simp
  have r1: "isl r1 = (\<not> available g now ic (asset ''steeeam-canvas.png'') t)"
    using getCachedImage_result [OF g1] by (simp add: t_def)
  have r2: "isl r2 = (\<not> available g now ic (asset ''loc-icon.png'') t)"
    using getCachedImage_result [OF g2] k1 ttl_pos by (simp add: t_def)
  have r3: "isl r3 = (\<not> available g now ic (asset ''seen-icon.png'') t)"
    using getCachedImage_result [OF g3] k2 ttl_pos by (simp add: t_def)
  have r4: "isl r4 = (\<not> available g now ic (asset ''join-icon.png'') t)"
    using getCachedImage_result [OF g4] k3 ttl_pos by (simp add: t_def)
  have r5: "isl r5 = (\<not> available g now ic (asset ''game-stats-icon.png'') t)"
    using getCachedImage_result [OF g5] k4 ttl_pos by (simp add: t_def)
  show "isl (fst (render g now ic (UserData p) gd c bw hb)) =
           (\<not> ((\<forall>name \<in> set static_images. available g now ic (asset name) t)
               \<and> (\<exists>s. steamId p = Str s) \<and> gd \<noteq> Undefined))"
    using r1 r2 r3 r4 r5 draw_steamId_result [of c "steamId p"] draw_panel_result [of g c gd]
    by (cases r1; cases r2; cases r3; cases r4; cases r5;
        cases "draw_steamId c (steamId p)"; cases "draw_panel g c gd")
       (auto simp: render_def g1 g2 g3 g4 g5 static_images_def split: prod.splits)
  show "render g now ic (UserData p) gd c bw hb
             = render g now ic (UserData (p\<lparr>avatar := []\<rparr>)) gd c bw hb"
    if "\<not> available g now ic (avatar p) AVATAR_CACHE_TTL"
  proof -
    have "\<not> available g now ic5 (avatar p) AVATAR_CACHE_TTL"
      using that k5 ttl_pos by simp
    then have "drawCenteredRoundedImage g now ic5 (avatar p) = ([], ic5)"
      by (rule avatar_skipped)
    then show ?thesis
      by (cases r1; cases r2; cases r3; cases r4; cases r5)
         (simp_all add: render_def g1 g2 g3 g4 g5 split: sum.splits)
  qed
qed

text \<open>
  Claim C2, as amended. For a profile, the request ends with status 200 exactly when
  the five static images can be had (and the Steam id is a string and the library
  result is defined), and with status 500 otherwise: a static image that fails to load
  is not recovered. An avatar that cannot be had is recovered: the response is the one
  of a profile without avatar, so only the avatar is missing from the card.
\<close>

theorem avatar_failure_is_recovered:
  "status (fst (handler g now ic (UserData p) gd q))
     = (if (\<forall>name \<in> set static_images. available g now ic (asset name) CACHE_TTL)
           \<and> (\<exists>s. steamId p = Str s) \<and> gd \<noteq> Undefined
        then 200 else 500)
   \<and> (\<not> available g now ic (avatar p) AVATAR_CACHE_TTL \<longrightarrow>
        handler g now ic (UserData p) gd q
          = handler g now ic (UserData (p\<lparr>avatar := []\<rparr>)) gd q)"
proof -
  let ?c = "apply_theme (q_theme q) (default_colors q)"
  let ?bw = "default_border_width (q_border_width q)"
  obtain r ic1 where r: "render g now ic (UserData p) gd ?c ?bw (q_hide_border q) = (r, ic1)"
    by fastforce
  have "isl r = (\<not> ((\<forall>name \<in> set static_images. available g now ic (asset name) CACHE_TTL)
                     \<and> (\<exists>s. steamId p = Str s) \<and> gd \<noteq> Undefined))"
    using render_profile(1) [of g now ic p gd ?c ?bw "q_hide_border q"] r by simp
  then have "status (fst (handler g now ic (UserData p) gd q))
     = (if (\<forall>name \<in> set static_images. available g now ic (asset name) CACHE_TTL)
           \<and> (\<exists>s. steamId p = Str s) \<and> gd \<noteq> Undefined
        then 200 else 500)"
    by (cases r) (simp_all add: handler_def createFullCanvas_def r)
  moreover have "handler g now ic (UserData p) gd q
          = handler g now ic (UserData (p\<lparr>avatar := []\<rparr>)) gd q"
    if "\<not> available g now ic (avatar p) AVATAR_CACHE_TTL"
    using render_profile(2) [OF that, of gd ?c ?bw "q_hide_border q"]
    by (simp add: handler_def createFullCanvas_def)
  ultimately show ?thesis by simp
qed

text \<open>An avatar that does not load, all static images loading: status 200, no avatar.\<close>

theorem avatar_failure_is_recovered_witness:
  "\<not> available no_avatar_gfx 0 Map.empty (avatar demo_profile) AVATAR_CACHE_TTL
   \<and> status (fst (handler no_avatar_gfx 0 Map.empty (UserData demo_profile) demo_gameData
                  demo_query)) = 200
   \<and> handler no_avatar_gfx 0 Map.empty (UserData demo_profile) demo_gameData demo_query
       = handler no_avatar_gfx 0 Map.empty (UserData (demo_profile\<lparr>avatar := []\<rparr>))
           demo_gameData demo_query"
proof -
  have na: "\<not> available no_avatar_gfx 0 Map.empty (avatar demo_profile) AVATAR_CACHE_TTL"
    by (simp add: available_def no_avatar_gfx_def demo_gfx_def)
  have st: "\<forall>name \<in> set static_images.
              available no_avatar_gfx 0 Map.empty (asset name) CACHE_TTL"
    by (simp add: available_def no_avatar_gfx_def demo_gfx_def demo_profile_def
          static_images_def asset_def)
  have sid: "\<exists>s. steamId demo_profile = Str s" by (simp add: demo_profile_def)
  have gd: "demo_gameData \<noteq> Undefined" by (simp add: demo_gameData_def)
  note t = avatar_failure_is_recovered
             [of no_avatar_gfx 0 Map.empty demo_profile demo_gameData demo_query]
  from t st sid gd
  have a: "status (fst (handler no_avatar_gfx 0 Map.empty (UserData demo_profile) demo_gameData
                          demo_query)) = 200"
    by simp
  from t na
  have b: "handler no_avatar_gfx 0 Map.empty (UserData demo_profile) demo_gameData demo_query
             = handler no_avatar_gfx 0 Map.empty (UserData (demo_profile\<lparr>avatar := []\<rparr>))
                 demo_gameData demo_query"
    by blast
  from na a b show ?thesis by (intro conjI)
qed

text \<open>
  The claim as stated fails for the static images: when the watermark does not load,
  the request ends with status 500.
\<close>

theorem static_image_failure_counterexample:
  "status (fst (handler
      (demo_gfx\<lparr>loadImage := (\<lambda>p. if p = asset ''steeeam-canvas.png'' then None
                                    else Some (Image p 184 184))\<rparr>)
      0 Map.empty (UserData demo_profile) demo_gameData demo_query)) = 500"
  by (simp add: handler_def createFullCanvas_def render_def getCachedImage_def demo_gfx_def)

section \<open>A failed library request\<close>

lemma games_fetch_failure:
  assumes "\<And>sid. fst (games_steamId sv st uid) = Inr sid \<Longrightarrow> isl (getUserOwnedGames sv sid)"
  shows "fst (games_fetch sv now st uid cc) = ErrorData ''private games''"
proof (cases "games_steamId sv st uid")
  case (Pair r st1)
  show ?thesis
  proof (cases r)
    case (Inl e)
    with Pair show ?thesis by (simp add: games_fetch_def)
  next
    case (Inr sid)
    with Pair have "isl (getUserOwnedGames sv sid)" by (intro assms) simp
    then obtain e where "getUserOwnedGames sv sid = Inl e"
      by (cases "getUserOwnedGames sv sid") simp_all
    with Pair Inr show ?thesis by (simp add: games_fetch_def Let_def)
  qed
qed

text \<open>
  Claim C3, as amended. When the library request fails, for whatever reason (the id
  cannot be resolved, or the owned-games request for the id that is used fails: a
  private library, a network failure, a timeout), \<open>getGameData\<close> does not throw: it
  returns the one marker \<open>{error: 'private games'}\<close>, and on that marker the renderer
  draws the message \<open>Private Games List\<close> in place of the statistics and the progress
  bar. (The request is made: no valid cached value, none in flight.)
\<close>

theorem failed_library_fetch_draws_private:
  assumes "cache_hit now (cache st (''games_'' @ uid @ ''_'' @ cc)) GAME_DATA_CACHE_TTL = None"
    and "pendingRequests st (''games_'' @ uid @ ''_'' @ cc) = None"
    and "\<And>sid. fst (games_steamId sv st uid) = Inr sid \<Longrightarrow> isl (getUserOwnedGames sv sid)"
  shows "fst (getGameData sv now st uid cc) = Ready (ErrorData ''private games'')
         \<and> draw_panel g c (ErrorData ''private games'')
             = Inr [FillStyle (hash (sub_title_color c)), Font ''16px Geist'',
                    FillText ''Private Games List'' (Fin 390) (Fin 200)]"
proof -
  have "fst (games_fetch sv now st uid cc) = ErrorData ''private games''"
    by (rule games_fetch_failure) (rule assms(3))
  with assms(1,2) show ?thesis
    by (cases "games_fetch sv now st uid cc")
       (simp add: getGameData_def Let_def draw_panel_def draw_private_def)
qed

text \<open>
  The theorem at a service where only this account's library is private, and at one
  where the name cannot be resolved while the owned-games request works.
\<close>

theorem failed_library_fetch_draws_private_witness:
  "getUserOwnedGames private_gabe (Str ''1'') = Inr eleven_games
   \<and> fst (getGameData private_gabe 0 empty_state ''gabe'' ''US'')
       = Ready (ErrorData ''private games'')
   \<and> getUserOwnedGames unresolvable (Str ''76561198000000001'') = Inr eleven_games
   \<and> fst (getGameData unresolvable 0 empty_state ''gabe'' ''US'')
       = Ready (ErrorData ''private games'')
   \<and> draw_panel demo_gfx (default_colors demo_query) (ErrorData ''private games'')
       = Inr [FillStyle (hash (sub_title_color (default_colors demo_query))), Font ''16px Geist'',
              FillText ''Private Games List'' (Fin 390) (Fin 200)]"
proof -
  have hit: "cache_hit 0 (cache empty_state (''games_'' @ ''gabe'' @ ''_'' @ ''US''))
               GAME_DATA_CACHE_TTL = None"
    and pend: "pendingRequests empty_state (''games_'' @ ''gabe'' @ ''_'' @ ''US'') = None"
    by (simp_all add: cache_hit_def empty_state_def)
  have a: "isl (getUserOwnedGames private_gabe sid)"
    if "fst (games_steamId private_gabe empty_state ''gabe'') = Inr sid" for sid
    using that
    by (simp add: games_steamId_def private_gabe_def demo_services_def empty_state_def
          Let_def)
  have b: "isl (getUserOwnedGames unresolvable sid)"
    if "fst (games_steamId unresolvable empty_state ''gabe'') = Inr sid" for sid
    using that
    by (simp add: games_steamId_def unresolvable_def demo_services_def empty_state_def
          Let_def)
  have pa: "getUserOwnedGames private_gabe (Str ''1'') = Inr eleven_games"
    by (simp add: private_gabe_def demo_services_def)
  have pb: "getUserOwnedGames unresolvable (Str ''76561198000000001'') = Inr eleven_games"
    by (simp add: unresolvable_def demo_services_def)
  from failed_library_fetch_draws_private
         [of 0 empty_state "''gabe''" "''US''" private_gabe demo_gfx "default_colors demo_query",
          OF hit pend a]
       failed_library_fetch_draws_private
         [of 0 empty_state "''gabe''" "''US''" unresolvable demo_gfx "default_colors demo_query",
          OF hit pend b]
       pa pb
  show ?thesis by simp
qed

text \<open>
  The claim as stated fails: a network failure of the owned-games request gives the
  very result a private library gives.
\<close>

theorem network_failure_same_marker_counterexample:
  "fst (getGameData (demo_services\<lparr>getUserOwnedGames := (\<lambda>sid. Inl NetworkFailure)\<rparr>)
          0 empty_state ''gabe'' ''US'')
   = fst (getGameData (demo_services\<lparr>getUserOwnedGames := (\<lambda>sid. Inl Forbidden)\<rparr>)
          0 empty_state ''gabe'' ''US'')"
  by (simp add: getGameData_def games_fetch_def games_steamId_def cache_hit_def
        empty_state_def demo_services_def Let_def)

section \<open>The username\<close>

text \<open>
  The loop, started at \<open>i\<close> with the last length that fitted (\<open>i - 1\<close>), when the dots
  alone fit and all shorter prefixes fitted.
\<close>

lemma truncate_loop_spec:
  assumes "width ''...'' \<le> 180"
    and "\<forall>j < i. width (take j username @ ''...'') \<le> 180"
    and "i \<le> length username"
  shows "truncate_loop width username i (i - 1) \<le> length username - 1
         \<and> (\<forall>j \<le> truncate_loop width username i (i - 1). width (take j username @ ''...'') \<le> 180)
         \<and> (truncate_loop width username i (i - 1) = length username - 1
              \<or> 180 < width (take (Suc (truncate_loop width username i (i - 1))) username @ ''...''))"
  using assms
proof (induction width username i "i - 1" rule: truncate_loop.induct)
  case (1 width username i)
  let ?fits = "\<lambda>j. width (take j username @ ''...'') \<le> 180"
  show ?case
  proof (cases "i < length username")
    case False
    with 1 have i: "i = length username" by simp
    have r: "truncate_loop width username i (i - 1) = length username - 1"
      using i by (subst truncate_loop.simps) simp
    have "?fits j" if "j \<le> length username - 1" for j
    proof (cases "j < i")
      case True
      with 1 show ?thesis by simp
    next
      case False
      with that i have "j = 0" by simp
      with 1 show ?thesis by simp
    qed
    with r show ?thesis by simp
  next
    case True
    show ?thesis
    proof (cases "?fits i")
      case False
      then have r: "truncate_loop width username i (i - 1) = i - 1"
        using True by (subst truncate_loop.simps) simp
      have i0: "0 < i"
      proof (rule ccontr)
        assume "\<not> 0 < i"
        with False 1 show False by simp
      qed
      have "?fits j" if "j \<le> i - 1" for j
        using that i0 1 by simp
      moreover have "180 < width (take (Suc (i - 1)) username @ ''...'')"
        using False i0 by simp
      ultimately show ?thesis using r True by simp
    next
      case fits: True
      have r: "truncate_loop width username i (i - 1) = truncate_loop width username (Suc i) i"
        using True fits by (subst truncate_loop.simps) simp
      have "\<not> 180 < width (take i username @ ''...'')" using fits by simp
      moreover have "\<forall>j < Suc i. ?fits j" using 1 fits by (simp add: less_Suc_eq)
      moreover have "Suc i \<le> length username" using True by simp
      ultimately have "truncate_loop width username (Suc i) (Suc i - 1) \<le> length username - 1
         \<and> (\<forall>j \<le> truncate_loop width username (Suc i) (Suc i - 1). ?fits j)
         \<and> (truncate_loop width username (Suc i) (Suc i - 1) = length username - 1
              \<or> 180 < width (take (Suc (truncate_loop width username (Suc i) (Suc i - 1))) username @ ''...''))"
        using 1(1) [OF True] 1(2) by simp
      then show ?thesis unfolding r by simp
    qed
  qed
qed

text \<open>
  Claim C4. The font is a parameter; three facts about it are assumed: the width of a
  prefix followed by the dots does not shrink when the prefix grows (the claim's own
  assumption), the three dots alone are at most 180 wide (so that some prefix has the
  property at all), and the name followed by the dots is not narrower than the name.
  Then a name at most 180 wide is drawn as it is, and a wider name is drawn as a
  prefix followed by three dots that is at most 180 wide, the prefix being the longest
  prefix of the name with that property.
\<close>

theorem username_truncation:
  assumes "\<forall>i j. i \<le> j \<and> j \<le> length name \<longrightarrow>
             measureText g ''700 20px Geist'' (take i name @ ''...'')
               \<le> measureText g ''700 20px Geist'' (take j name @ ''...'')"
    and "measureText g ''700 20px Geist'' ''...'' \<le> 180"
    and "measureText g ''700 20px Geist'' name \<le> measureText g ''700 20px Geist'' (name @ ''...'')"
  shows "(measureText g ''700 20px Geist'' name \<le> 180 \<longrightarrow>
            draw_username g c name
              = [FillStyle (hash (username_color c)), Font ''700 20px Geist'',
                 FillText name (Fin 20) (Fin 180)])
       \<and> (180 < measureText g ''700 20px Geist'' name \<longrightarrow>
            (\<exists>k \<le> length name.
               draw_username g c name
                 = [FillStyle (hash (username_color c)), Font ''700 20px Geist'',
                    FillText (take k name @ ''...'') (Fin 20) (Fin 180)]
               \<and> measureText g ''700 20px Geist'' (take k name @ ''...'') \<le> 180
               \<and> (\<forall>j \<le> length name.
                     measureText g ''700 20px Geist'' (take j name @ ''...'') \<le> 180
                       \<longrightarrow> j \<le> k)))"
proof -
  define w where "w = measureText g ''700 20px Geist''"
  define K where "K = truncate_loop w name 0 0"
  let ?fits = "\<lambda>j. w (take j name @ ''...'') \<le> 180"
  have mono: "w (take i name @ ''...'') \<le> w (take j name @ ''...'')"
    if "i \<le> j" "j \<le> length name" for i j
    using assms(1) that by (simp add: w_def)
  have dots: "w ''...'' \<le> 180" using assms(2) by (simp add: w_def)
  have app: "w name \<le> w (name @ ''...'')" using assms(3) by (simp add: w_def)
  have spec: "K \<le> length name - 1 \<and> (\<forall>j \<le> K. ?fits j)
              \<and> (K = length name - 1 \<or> 180 < w (take (Suc K) name @ ''...''))"
    using truncate_loop_spec [of w 0 name] dots by (simp add: K_def)
  have short: "draw_username g c name
              = [FillStyle (hash (username_color c)), Font ''700 20px Geist'',
                 FillText name (Fin 20) (Fin 180)]"
    if "w name \<le> 180"
    using that by (simp add: draw_username_def drawn_username_def w_def)
  have long: "\<exists>k \<le> length name.
               draw_username g c name
                 = [FillStyle (hash (username_color c)), Font ''700 20px Geist'',
                    FillText (take k name @ ''...'') (Fin 20) (Fin 180)]
               \<and> ?fits k \<and> (\<forall>j \<le> length name. ?fits j \<longrightarrow> j \<le> k)"
    if wide: "180 < w name"
  proof (intro exI [of _ K] conjI)
    show "K \<le> length name" using spec by arith
    show "draw_username g c name
            = [FillStyle (hash (username_color c)), Font ''700 20px Geist'',
               FillText (take K name @ ''...'') (Fin 20) (Fin 180)]"
      using wide by (simp add: draw_username_def drawn_username_def w_def K_def)
    show "?fits K" using spec by simp
    show "\<forall>j \<le> length name. ?fits j \<longrightarrow> j \<le> K"
    proof (intro allI impI)
      fix j
      assume j: "j \<le> length name" and fj: "?fits j"
      show "j \<le> K"
      proof (rule ccontr)
        assume "\<not> j \<le> K"
        then have jK: "Suc K \<le> j" by simp
        from spec consider "K = length name - 1" | "180 < w (take (Suc K) name @ ''...'')"
          by blast
        then show False
        proof cases
          case 1
          with jK j have "j = length name" by simp
          with fj have "w (name @ ''...'') \<le> 180" by simp
          with app wide show False by simp
        next
          case 2
          from mono [OF jK j] fj have "w (take (Suc K) name @ ''...'') \<le> 180" by simp
          with 2 show False by simp
        qed
      qed
    qed
  qed
  from short long show ?thesis unfolding w_def by blast
qed

text \<open>
  In a font whose characters are all 10 wide, a name of twenty characters is cut to
  its first fifteen.
\<close>

theorem username_truncation_witness:
  "180 < measureText demo_gfx ''700 20px Geist'' ''abcdefghijklmnopqrst''
   \<and> measureText demo_gfx ''700 20px Geist'' ''...'' \<le> 180
   \<and> (\<exists>k \<le> length ''abcdefghijklmnopqrst''.
         draw_username demo_gfx (default_colors demo_query) ''abcdefghijklmnopqrst''
           = [FillStyle (hash (username_color (default_colors demo_query))),
              Font ''700 20px Geist'',
              FillText (take k ''abcdefghijklmnopqrst'' @ ''...'') (Fin 20) (Fin 180)]
         \<and> measureText demo_gfx ''700 20px Geist'' (take k ''abcdefghijklmnopqrst'' @ ''...'')
             \<le> 180
         \<and> (\<forall>j \<le> length ''abcdefghijklmnopqrst''.
               measureText demo_gfx ''700 20px Geist'' (take j ''abcdefghijklmnopqrst'' @ ''...'')
                 \<le> 180 \<longrightarrow> j \<le> k))"
  using username_truncation [of "''abcdefghijklmnopqrst''" demo_gfx "default_colors demo_query"]
  by (simp add: demo_gfx_def)

section \<open>The progress bar\<close>

lemma eps_tiny_small:
  "0 \<le> eps" "0 \<le> tiny" "eps \<le> 1 / 1000" "tiny \<le> 1 / 1000"
  "1540 * eps + 661 * tiny < 1 / 2 ^ 42"
  by (simp_all add: eps_def tiny_def)

lemma rnd_close:
  assumes "\<bar>x\<bar> \<le> B"
  shows "\<bar>rnd x - x\<bar> \<le> B * eps + tiny"
proof -
  have "\<bar>x\<bar> * eps \<le> B * eps" using assms eps_tiny_small(1) by (rule mult_right_mono)
  with rnd_err [of x] show ?thesis by linarith
qed

lemma dbl_small:
  assumes "\<bar>x\<bar> \<le> 2 ^ 20"
  shows "dbl x = Fin (rnd x)"
proof -
  have "\<bar>rnd x - x\<bar> \<le> 2 ^ 20 * eps + tiny" by (rule rnd_close [OF assms])
  moreover have "(2::rat) ^ 20 * eps + tiny \<le> 2 ^ 20" by (simp add: eps_def tiny_def)
  ultimately have "\<bar>rnd x\<bar> \<le> 2 ^ 20 + 2 ^ 20" using assms by linarith
  moreover have "(2::rat) ^ 20 + 2 ^ 20 < 2 ^ 1024" by simp
  ultimately have "\<bar>rnd x\<bar> < 2 ^ 1024" by linarith
  then have "\<not> 2 ^ 1024 \<le> rnd x" "\<not> rnd x \<le> - (2 ^ 1024)" by linarith+
  then show ?thesis unfolding dbl_def Let_def by (simp only: if_False)
qed

text \<open>
  The four roundings between the counts and the filled width: the quotient, the
  percentage, the percentage over 100, and its product with the width of the bar.
\<close>

lemma fill_chain:
  fixes x0 :: rat
  assumes "0 \<le> x0" and "x0 \<le> 1"
  defines "q \<equiv> rnd x0"
  defines "a \<equiv> rnd (q * 100)"
  defines "b \<equiv> rnd (a / 100)"
  defines "c \<equiv> rnd (220 * b)"
  shows "\<bar>q\<bar> \<le> 2" "\<bar>a\<bar> \<le> 200" "\<bar>b\<bar> \<le> 2" "\<bar>c - 220 * x0\<bar> < 1 / 2 ^ 42"
proof -
  note s = eps_tiny_small
  have x: "\<bar>x0\<bar> \<le> 1" using assms(1,2) by simp
  have q: "\<bar>q - x0\<bar> \<le> 1 * eps + tiny" unfolding q_def by (rule rnd_close [OF x])
  show q2: "\<bar>q\<bar> \<le> 2" using q x s by linarith
  have "\<bar>q * 100\<bar> \<le> 200" using q2 by simp
  then have a: "\<bar>a - q * 100\<bar> \<le> 200 * eps + tiny" unfolding a_def by (rule rnd_close)
  have a0: "\<bar>a - 100 * x0\<bar> \<le> 300 * eps + 101 * tiny" using a q by linarith
  show a2: "\<bar>a\<bar> \<le> 200" using a0 x s by linarith
  have "\<bar>a / 100\<bar> \<le> 2" using a2 by simp
  then have b: "\<bar>b - a / 100\<bar> \<le> 2 * eps + tiny" unfolding b_def by (rule rnd_close)
  have b0: "\<bar>b - x0\<bar> \<le> 5 * eps + 3 * tiny" using b a0 s by linarith
  show b2: "\<bar>b\<bar> \<le> 2" using b0 x s by linarith
  have "\<bar>220 * b\<bar> \<le> 440" using b2 by simp
  then have c: "\<bar>c - 220 * b\<bar> \<le> 440 * eps + tiny" unfolding c_def by (rule rnd_close)
  have "\<bar>c - 220 * x0\<bar> \<le> 1540 * eps + 661 * tiny" using c b0 by linarith
  with s(5) show "\<bar>c - 220 * x0\<bar> < 1 / 2 ^ 42" by linarith
qed

lemma barWidth_value:
  assumes "0 < n" and "p \<le> n" and "n < 2 ^ 32"
  shows "progress_of (show_nat p) (show_nat n) = Fin (rnd (rnd (of_nat p / of_nat n) * 100))"
    and "barWidth (Fin 220) (progress_of (show_nat p) (show_nat n))
           = Fin (of_int \<lfloor>rnd (220 * rnd (rnd (rnd (of_nat p / of_nat n) * 100) / 100))\<rfloor>)"
proof -
  define x0 where "x0 = (of_nat p :: rat) / of_nat n"
  have x: "0 \<le> x0" "x0 \<le> 1" using assms by (simp_all add: x0_def)
  note ch = fill_chain [OF x]
  have n53: "n < 2 ^ 53" "p < 2 ^ 53" using assms by (simp_all add: less_trans [of _ "2 ^ 32"] le_less_trans [of p n])
  have pp: "parseInt (show_nat p) = Fin (of_nat p)" "parseInt (show_nat n) = Fin (of_nat n)"
    using n53 by (simp_all add: parseInt_show_nat)
  have d1: "dbl x0 = Fin (rnd x0)" using x by (intro dbl_small) simp
  have d2: "dbl (rnd x0 * 100) = Fin (rnd (rnd x0 * 100))"
    using ch(1) by (intro dbl_small) simp
  have d3: "dbl (rnd (rnd x0 * 100) / 100) = Fin (rnd (rnd (rnd x0 * 100) / 100))"
    using ch(2) by (intro dbl_small) simp
  have d4: "dbl (220 * rnd (rnd (rnd x0 * 100) / 100))
              = Fin (rnd (220 * rnd (rnd (rnd x0 * 100) / 100)))"
    using ch(3) by (intro dbl_small) simp
  have n0: "(of_nat n :: rat) \<noteq> 0" using assms(1) by simp
  show P: "progress_of (show_nat p) (show_nat n) = Fin (rnd (rnd (of_nat p / of_nat n) * 100))"
    using n0 d1 d2 by (simp add: progress_of_def pp x0_def)
  show "barWidth (Fin 220) (progress_of (show_nat p) (show_nat n))
           = Fin (of_int \<lfloor>rnd (220 * rnd (rnd (rnd (of_nat p / of_nat n) * 100) / 100))\<rfloor>)"
    using d3 d4 by (simp add: barWidth_def P x0_def)
qed

lemma fill_floor:
  fixes c :: rat
  assumes "0 < n" and "n < 2 ^ 32" and "\<bar>c - of_nat m / of_nat n\<bar> < 1 / 2 ^ 42"
  shows "\<lfloor>c\<rfloor> = int (m div n) \<or> \<lfloor>c\<rfloor> = int (m div n) - 1"
proof -
  define v where "v = (of_nat m :: rat) / of_nat n"
  define fl where "fl = int (m div n)"
  have n0: "(0::rat) < of_nat n" using assms(1) by simp
  have m: "(of_nat m :: rat) = of_nat n * of_nat (m div n) + of_nat (m mod n)"
    by (metis mult_div_mod_eq of_nat_add of_nat_mult)
  have v: "v = of_int fl + of_nat (m mod n) / of_nat n"
    using n0 by (simp add: v_def fl_def m add_divide_distrib)
  have "m mod n \<le> n - 1" using assms(1) by (metis Suc_pred' less_Suc_eq_le mod_less_divisor)
  then have "(of_nat (m mod n) :: rat) \<le> of_nat (n - 1)" by (simp only: of_nat_le_iff)
  also have "\<dots> = of_nat n - 1" using assms(1) by (simp add: of_nat_diff)
  finally have "(of_nat (m mod n) :: rat) / of_nat n \<le> (of_nat n - 1) / of_nat n"
    using n0 by (simp add: divide_right_mono)
  also have "\<dots> = 1 - 1 / of_nat n" using n0 by (simp add: diff_divide_distrib)
  finally have up: "v \<le> of_int fl + 1 - 1 / of_nat n" using v by simp
  have lo: "of_int fl \<le> v" using v n0 by simp
  have "(of_nat n :: rat) < of_nat (2 ^ 32)" using assms(2) by (simp only: of_nat_less_iff)
  then have "(of_nat n :: rat) < 2 ^ 42" by simp
  then have "1 / 2 ^ 42 < 1 / (of_nat n :: rat)" using n0 by (simp add: frac_less2)
  with up assms(3) have "c < of_int fl + 1" unfolding v_def [symmetric] by linarith
  then have "c < of_int (fl + 1)" by simp
  then have a: "\<lfloor>c\<rfloor> < fl + 1" by (simp only: floor_less_iff)
  have "(1::rat) / 2 ^ 42 < 1" by simp
  with lo assms(3) have "of_int fl - 1 \<le> c" unfolding v_def [symmetric] by linarith
  then have "of_int (fl - 1) \<le> c" by simp
  then have b: "fl - 1 \<le> \<lfloor>c\<rfloor>" by (simp only: le_floor_iff)
  from a b show ?thesis unfolding fl_def by linarith
qed

lemma fill_width:
  assumes "0 < n" and "p \<le> n" and "n < 2 ^ 32"
  shows "\<exists>w. barWidth (Fin 220) (progress_of (show_nat p) (show_nat n)) = Fin (of_int w)
             \<and> (w = int ((220 * p) div n) \<or> w = int ((220 * p) div n) - 1)"
proof -
  define x0 where "x0 = (of_nat p :: rat) / of_nat n"
  have x: "0 \<le> x0" "x0 \<le> 1" using assms by (simp_all add: x0_def)
  have "220 * x0 = of_nat (220 * p) / of_nat n" by (simp add: x0_def)
  with fill_chain(4) [OF x]
  have "\<bar>rnd (220 * rnd (rnd (rnd x0 * 100) / 100)) - of_nat (220 * p) / of_nat n\<bar> < 1 / 2 ^ 42"
    by simp
  from fill_floor [OF assms(1,3) this] barWidth_value(2) [OF assms]
  show ?thesis by (auto simp: x0_def)
qed

lemma three_of_eleven: "\<lfloor>rnd (220 * rnd (rnd (rnd (3 / 11) * 100) / 100))\<rfloor> = 59"
  by code_simp

lemma toNumber_NaN: "toNumber ''NaN'' = NaN"
  by (simp add: toNumber_def trim_def unsigned_decimal_def is_ws_def is_digit_def Let_def)

lemma no_games_no_bar:
  "draw_counter g c (show_nat 0) (show_nat 0) = []"
  "createRoundedProgressBar w h (progress_of (show_nat 0) (show_nat 0)) bar bg r = []"
proof -
  have "parseInt (show_nat 0) = Fin 0" using parseInt_show_nat [of 0] by simp
  then have p: "progress_of (show_nat 0) (show_nat 0) = NaN" by (simp add: progress_of_def)
  show "draw_counter g c (show_nat 0) (show_nat 0) = []"
    by (simp add: draw_counter_def p toNumber_NaN isNaN_def)
  show "createRoundedProgressBar w h (progress_of (show_nat 0) (show_nat 0)) bar bg r = []"
    by (simp add: createRoundedProgressBar_def p isNaN_def)
qed

lemma count_texts:
  "playedCount_text (Some pc) = show_nat (playedCount pc)"
  "gameCount_text (Some t) = show_nat (totalGames t)"
  by (simp_all add: playedCount_text_def gameCount_text_def or_default_def show_nat_nonempty)

text \<open>
  Claim C5, as amended. For every library result (of fewer than \<open>2 ^ 32\<close> games,
  the bound of a JavaScript array): with no games, the progress is \<open>NaN\<close> and neither
  the played/total line nor the bar is drawn; otherwise the bar is drawn and its filled
  width is \<open>floor(220 * playedCount / totalGames)\<close> or one less. The width is
  computed in double precision through the percentage, and the roundings can leave the
  product just below a whole number.
\<close>

theorem progress_bar_fill:
  assumes "length gs < 2 ^ 32"
  shows "\<exists>t pc. aggregate sv cc gs = GameData t pc
           \<and> (gs = [] \<longrightarrow>
                draw_counter g c (playedCount_text (Some pc)) (gameCount_text (Some t)) = []
                \<and> createRoundedProgressBar (Fin 220) (Fin 12)
                    (progress_of (playedCount_text (Some pc)) (gameCount_text (Some t)))
                    bar bg (Fin 6) = [])
           \<and> (gs \<noteq> [] \<longrightarrow>
                (\<exists>w. (w = \<lfloor>220 * of_nat (playedCount pc) / of_nat (totalGames t) :: rat\<rfloor>
                       \<or> w = \<lfloor>220 * of_nat (playedCount pc) / of_nat (totalGames t) :: rat\<rfloor> - 1)
                     \<and> createRoundedProgressBar (Fin 220) (Fin 12)
                         (progress_of (playedCount_text (Some pc)) (gameCount_text (Some t)))
                         bar bg (Fin 6)
                       = [FillStyle bg]
                         @ roundRect (Fin 215) (Fin 330) (Fin 220) (Fin 12) (Fin 6) True False
                         @ [FillStyle bar]
                         @ roundRect (Fin 215) (Fin 330) (Fin (of_int w)) (Fin 12) (Fin 6)
                             True True))"
proof -
  define pc where "pc = counts (tally_games gs)"
  from aggregate_counts [of sv cc gs] obtain t
    where t: "aggregate sv cc gs = GameData t pc" "totalGames t = length gs"
    by (auto simp: pc_def)
  have p: "playedCount pc \<le> length gs" by (simp add: pc_def tally_counts)
  have empty: "draw_counter g c (playedCount_text (Some pc)) (gameCount_text (Some t)) = []
      \<and> createRoundedProgressBar (Fin 220) (Fin 12)
          (progress_of (playedCount_text (Some pc)) (gameCount_text (Some t))) bar bg (Fin 6) = []"
    if "gs = []"
    using that t(2) p no_games_no_bar(1) [of g c]
      no_games_no_bar(2) [of "Fin 220" "Fin 12" bar bg "Fin 6"]
    by (simp add: count_texts)
  have full: "\<exists>w. (w = \<lfloor>220 * of_nat (playedCount pc) / of_nat (totalGames t) :: rat\<rfloor>
                       \<or> w = \<lfloor>220 * of_nat (playedCount pc) / of_nat (totalGames t) :: rat\<rfloor> - 1)
                     \<and> createRoundedProgressBar (Fin 220) (Fin 12)
                         (progress_of (playedCount_text (Some pc)) (gameCount_text (Some t)))
                         bar bg (Fin 6)
                       = [FillStyle bg]
                         @ roundRect (Fin 215) (Fin 330) (Fin 220) (Fin 12) (Fin 6) True False
                         @ [FillStyle bar]
                         @ roundRect (Fin 215) (Fin 330) (Fin (of_int w)) (Fin 12) (Fin 6)
                             True True"
    if "gs \<noteq> []"
  proof -
    have n: "0 < totalGames t" "playedCount pc \<le> totalGames t" "totalGames t < 2 ^ 32"
      using that t(2) p assms by simp_all
    from fill_width [OF n] obtain w
      where w: "barWidth (Fin 220) (progress_of (show_nat (playedCount pc)) (show_nat (totalGames t)))
                  = Fin (of_int w)"
        "w = int ((220 * playedCount pc) div totalGames t)
         \<or> w = int ((220 * playedCount pc) div totalGames t) - 1"
      by blast
    have fl: "\<lfloor>220 * of_nat (playedCount pc) / of_nat (totalGames t) :: rat\<rfloor>
                = int ((220 * playedCount pc) div totalGames t)"
      using floor_divide_of_nat_eq [of "220 * playedCount pc" "totalGames t", where ?'a = rat]
      by simp
    have "\<not> isNaN (progress_of (show_nat (playedCount pc)) (show_nat (totalGames t)))"
      using barWidth_value(1) [OF n] by (simp add: isNaN_def)
    then have "createRoundedProgressBar (Fin 220) (Fin 12)
                 (progress_of (playedCount_text (Some pc)) (gameCount_text (Some t))) bar bg (Fin 6)
               = [FillStyle bg]
                 @ roundRect (Fin 215) (Fin 330) (Fin 220) (Fin 12) (Fin 6) True False
                 @ [FillStyle bar]
                 @ roundRect (Fin 215) (Fin 330) (Fin (of_int w)) (Fin 12) (Fin 6) True True"
      by (simp add: createRoundedProgressBar_def count_texts w(1))
    with w(2) fl show ?thesis by auto
  qed
  from t(1) empty full show ?thesis by blast
qed

theorem progress_bar_fill_witness:
  "length eleven_games < 2 ^ 32 \<and> eleven_games \<noteq> []
   \<and> (\<exists>t pc. aggregate demo_services ''US'' eleven_games = GameData t pc
        \<and> (\<exists>w. (w = \<lfloor>220 * of_nat (playedCount pc) / of_nat (totalGames t) :: rat\<rfloor>
                  \<or> w = \<lfloor>220 * of_nat (playedCount pc) / of_nat (totalGames t) :: rat\<rfloor> - 1)
               \<and> createRoundedProgressBar (Fin 220) (Fin 12)
                   (progress_of (playedCount_text (Some pc)) (gameCount_text (Some t)))
                   ''#006fee'' ''#313131'' (Fin 6)
                 = [FillStyle ''#313131'']
                   @ roundRect (Fin 215) (Fin 330) (Fin 220) (Fin 12) (Fin 6) True False
                   @ [FillStyle ''#006fee'']
                   @ roundRect (Fin 215) (Fin 330) (Fin (of_int w)) (Fin 12) (Fin 6) True True))"
proof -
  have l: "length eleven_games < 2 ^ 32" and ne: "eleven_games \<noteq> []"
    by (simp_all add: eleven_games_def)
  from progress_bar_fill [OF l, of demo_services "''US''" demo_gfx "default_colors demo_query"
                            "''#006fee''" "''#313131''"]
       ne l
  show ?thesis by simp
qed

text \<open>
  The claim as stated fails: with three of eleven games played, the filled width is
  59, while \<open>floor(220 * 3 / 11)\<close> is 60.
\<close>

theorem three_of_eleven_counterexample:
  "\<exists>t pc. aggregate demo_services ''US'' eleven_games = GameData t pc
     \<and> playedCount pc = 3 \<and> totalGames t = 11
     \<and> barWidth (Fin 220) (progress_of (playedCount_text (Some pc)) (gameCount_text (Some t)))
         = Fin 59
     \<and> \<lfloor>220 * of_nat (playedCount pc) / of_nat (totalGames t) :: rat\<rfloor> = 60"
proof -
  define pc where "pc = counts (tally_games eleven_games)"
  from aggregate_counts [of demo_services "''US''" eleven_games] obtain t
    where t: "aggregate demo_services ''US'' eleven_games = GameData t pc"
      "totalGames t = length eleven_games"
    by (auto simp: pc_def)
  have n: "totalGames t = 11" using t(2) by (simp add: eleven_games_def)
  have "[Suc 0 ..< 12] = [1, 2, 3, 4, 5, 6, 7, 8, 9, 10, 11]" by (simp add: upt_rec)
  then have p: "playedCount pc = 3" by (simp add: pc_def tally_counts eleven_games_def)
  have "barWidth (Fin 220) (progress_of (show_nat 3) (show_nat 11))
          = Fin (of_int \<lfloor>rnd (220 * rnd (rnd (rnd (of_nat 3 / of_nat 11) * 100) / 100))\<rfloor>)"
    by (rule barWidth_value(2)) simp_all
  then have "barWidth (Fin 220) (progress_of (show_nat 3) (show_nat 11)) = Fin 59"
    using three_of_eleven by simp
  with t(1) n p show ?thesis by (simp add: count_texts)
qed

section \<open>The width of the border stroke\<close>

lemma conversions_show_int:
  assumes "\<bar>z\<bar> < 2 ^ 53"
  shows "toNumber (show_int z) = Fin (of_int z)" and "parseInt (show_int z) = Fin (of_int z)"
proof -
  have d: "dbl (of_int z) = Fin (of_int z)" by (rule dbl_of_int [OF assms])
  have "toNumber (show_int z) = Fin (of_int z) \<and> parseInt (show_int z) = Fin (of_int z)"
  proof (cases "z < 0")
    case True
    then have n: "(of_nat (nat (- z)) :: rat) = - of_int z" by simp
    have "\<bar>- z\<bar> < 2 ^ 53" using assms by simp
    then have "dbl (of_int (- z)) = Fin (of_int (- z))" by (rule dbl_of_int)
    then have d': "dbl (- of_int z) = Fin (- of_int z)" by simp
    show ?thesis
      using True d d'
      by (simp add: show_int_def toNumber_neg_digits [OF show_nat_nonempty show_nat_digits]
            parseInt_neg_digits [OF show_nat_nonempty show_nat_digits] digits_val_show_nat n)
  next
    case False
    then have n: "(of_nat (nat z) :: rat) = of_int z" by simp
    show ?thesis
      using False d
      by (simp add: show_int_def toNumber_digits [OF show_nat_nonempty show_nat_digits]
            parseInt_digits [OF show_nat_nonempty show_nat_digits] digits_val_show_nat n)
  qed
  then show "toNumber (show_int z) = Fin (of_int z)" and "parseInt (show_int z) = Fin (of_int z)"
    by simp_all
qed

lemma parseInt_ten: "parseInt (show_nat 10) = Fin 10"
  using parseInt_show_nat [of 10] by simp

lemma parseInt_one: "parseInt (show_nat (Suc 0)) = Fin 1"
  using parseInt_show_nat [of "Suc 0"] by simp

lemma border_lineWidth_cases:
  "border_lineWidth (default_border_width None) = Fin 1"
  "border_lineWidth (default_border_width (Some s)) =
     (if js_le (Fin 10) (toNumber s) then Fin 10 else parseInt s)"
  by (simp_all add: border_lineWidth_def default_border_width_def ge_10_def parseInt_arg_def
        parseInt_ten parseInt_one)

text \<open>
  Claim C6, as amended. When the border is not hidden, \<open>lineWidth\<close> is set to 10 if
  the input converts to a number that is at least 10, and to \<open>parseInt\<close> of the input
  otherwise. For a whole number written in decimal that is the number itself, negative
  or not; for any other input it is the integer the input starts with (a fraction is
  dropped) or \<open>NaN\<close>. Without the argument the width is 1.
\<close>

theorem border_width_is_parseInt:
  assumes "hide_border \<noteq> Some ''true''" and "\<bar>z\<bar> < 2 ^ 53"
  shows "draw_border c (default_border_width (Some s)) hide_border
           = [StrokeStyle (hash (border_color c)),
              LineWidth (if js_le (Fin 10) (toNumber s) then Fin 10 else parseInt s),
              StrokeRect (Fin 0) (Fin 0) (Fin 705) (Fin 385)]
         \<and> draw_border c (default_border_width (Some (show_int z))) hide_border
           = [StrokeStyle (hash (border_color c)),
              LineWidth (if 10 \<le> z then Fin 10 else Fin (of_int z)),
              StrokeRect (Fin 0) (Fin 0) (Fin 705) (Fin 385)]
         \<and> draw_border c (default_border_width None) hide_border
           = [StrokeStyle (hash (border_color c)), LineWidth (Fin 1),
              StrokeRect (Fin 0) (Fin 0) (Fin 705) (Fin 385)]"
  using assms(1) conversions_show_int [OF assms(2)]
  by (simp add: draw_border_def border_lineWidth_cases)

theorem border_width_is_parseInt_witness:
  "draw_border (default_colors demo_query) (default_border_width (Some (show_int (- 3)))) None
     = [StrokeStyle (hash (border_color (default_colors demo_query))), LineWidth (Fin (- 3)),
        StrokeRect (Fin 0) (Fin 0) (Fin 705) (Fin 385)]
   \<and> draw_border (default_colors demo_query) (default_border_width (Some (show_int 25))) None
     = [StrokeStyle (hash (border_color (default_colors demo_query))), LineWidth (Fin 10),
        StrokeRect (Fin 0) (Fin 0) (Fin 705) (Fin 385)]"
  using border_width_is_parseInt [of None "- 3" "default_colors demo_query" "''x''"]
        border_width_is_parseInt [of None 25 "default_colors demo_query" "''x''"]
  by simp

text \<open>
  The claim as stated fails: \<open>9.5\<close> is below 10 and the stroke is not drawn with the
  given width 9.5 but with 9.
\<close>

theorem fraction_dropped_counterexample:
  "toNumber ''9.5'' = Fin (19 / 2)
   \<and> border_lineWidth (default_border_width (Some ''9.5'')) = Fin 9"
proof -
  have "dbl (of_int 19 / 2) = Fin (of_int 19 / 2)" by (rule dbl_half) simp
  then have h: "dbl (19 / 2) = Fin (19 / 2)" by simp
  have n: "toNumber ''9.5'' = Fin (19 / 2)"
    by (simp add: toNumber_def trim_def unsigned_decimal_def is_ws_def is_digit_def
          digits_val_def digit_val_def Let_def h)
  have p: "parseInt ''9.5'' = Fin 9"
    by (simp add: parseInt_def is_ws_def is_digit_def digits_val_def digit_val_def Let_def)
  show ?thesis by (simp add: n p border_lineWidth_cases)
qed

section \<open>The age of the resolved id\<close>

lemma gameIds_tally: "gameIds (tally_games gs) = map game_id gs"
  by (simp add: tally_games_def foldl_tally)

text \<open>
  Claim C7 at a concrete cache: the id of \<open>gabe\<close> was resolved at time 0 and is read
  eight days later, past the seven days of \<open>STEAMID_CACHE_TTL\<close>. \<open>getGameData\<close> does
  not resolve the name again and requests the owned games of the cached id;
  \<open>getUserData\<close>, from the same cache, resolves the name first.
\<close>

theorem getGameData_uses_stale_steamId:
  "\<not> isCacheValid eight_days 0 STEAMID_CACHE_TTL
   \<and> calls (snd (getGameData demo_services eight_days stale_state ''gabe'' ''US''))
       = OwnedGames (Str ''123'')
         # map (\<lambda>chunk. AppDetails chunk ''US'') (gameIdChunks (map game_id eleven_games) 0)
   \<and> calls (snd (getUserData demo_services eight_days stale_state ''gabe''))
       = [ResolveVanity ''gabe'', UserSummary (Str ''76561198000000001''),
          FullInfo (Str ''76561198000000001'')]"
  by (simp add: isCacheValid_def eight_days_def STEAMID_CACHE_TTL_def
        getGameData_def games_fetch_def games_steamId_def cache_hit_def
        getUserData_def user_fetch_def user_steamId_def stamp_valid_def
        stale_state_def empty_state_def demo_services_def Let_def gameIds_tally)

section \<open>A failed request leaves its cache key as it was\<close>

lemma cache_hit_later:
  assumes "cache_hit now c ttl = None" and "now \<le> now1"
  shows "cache_hit now1 c ttl = None"
  using assms
  by (auto simp: cache_hit_def stamp_valid_def isCacheValid_def split: option.splits if_splits)

lemma make_userData_not_error: "make_userData sid us sidr \<noteq> ErrorData e"
  by (simp add: make_userData_def)

lemma user_steamId_frame:
  assumes "user_steamId sv now st uid = (r, st1)"
  shows "cache st1 (''user_'' @ u) = cache st (''user_'' @ u)"
    and "pendingRequests st1 = pendingRequests st"
    and "length (calls st) \<le> length (calls st1)"
  using assms
  by (auto simp: user_steamId_def Let_def split: if_splits sum.splits)

lemma user_fetch_error:
  assumes "user_fetch sv now st uid = (ErrorData e, st1)"
  shows "cache st1 (''user_'' @ uid) = cache st (''user_'' @ uid)"
    and "pendingRequests st1 = pendingRequests st"
proof -
  obtain r st0 where s: "user_steamId sv now st uid = (r, st0)" by fastforce
  note f = user_steamId_frame(1) [OF s, of uid] user_steamId_frame(2) [OF s]
  have "cache st1 (''user_'' @ uid) = cache st (''user_'' @ uid)
        \<and> pendingRequests st1 = pendingRequests st"
    using assms f
    by (auto simp: user_fetch_def s Let_def make_userData_not_error split: sum.splits)
  then show "cache st1 (''user_'' @ uid) = cache st (''user_'' @ uid)"
    and "pendingRequests st1 = pendingRequests st" by simp_all
qed

lemma user_fetch_calls: "length (calls st) < length (calls (snd (user_fetch sv now st uid)))"
proof -
  obtain r st0 where s: "user_steamId sv now st uid = (r, st0)" by fastforce
  have "r = Inl e \<Longrightarrow> length (calls st) < length (calls st0)" for e
    using s by (auto simp: user_steamId_def Let_def split: if_splits sum.splits)
  then show ?thesis
    using user_steamId_frame(3) [OF s]
    by (auto simp: user_fetch_def s Let_def split: sum.splits)
qed

lemma games_steamId_frame:
  assumes "games_steamId sv st uid = (r, st1)"
  shows "cache st1 (''games_'' @ k) = cache st (''games_'' @ k)"
    and "pendingRequests st1 = pendingRequests st"
    and "length (calls st) \<le> length (calls st1)"
  using assms
  by (auto simp: games_steamId_def Let_def split: if_splits sum.splits)

lemma aggregate_not_error: "aggregate sv cc gs \<noteq> ErrorData e"
  by (simp add: aggregate_GameData make_gameData_def)

lemma games_fetch_error:
  assumes "games_fetch sv now st uid cc = (ErrorData e, st1)"
  shows "cache st1 (''games_'' @ uid @ ''_'' @ cc) = cache st (''games_'' @ uid @ ''_'' @ cc)"
    and "pendingRequests st1 = pendingRequests st"
proof -
  obtain r st0 where s: "games_steamId sv st uid = (r, st0)" by fastforce
  note f = games_steamId_frame(1) [OF s, of "uid @ ''_'' @ cc"] games_steamId_frame(2) [OF s]
  have "cache st1 (''games_'' @ uid @ ''_'' @ cc) = cache st (''games_'' @ uid @ ''_'' @ cc)
        \<and> pendingRequests st1 = pendingRequests st"
    using assms f
    by (auto simp: games_fetch_def s Let_def aggregate_not_error split: sum.splits)
  then show "cache st1 (''games_'' @ uid @ ''_'' @ cc) = cache st (''games_'' @ uid @ ''_'' @ cc)"
    and "pendingRequests st1 = pendingRequests st" by simp_all
qed

lemma games_fetch_calls:
  "length (calls st) < length (calls (snd (games_fetch sv now st uid cc)))"
proof -
  obtain r st0 where s: "games_steamId sv st uid = (r, st0)" by fastforce
  have "r = Inl e \<Longrightarrow> length (calls st) < length (calls st0)" for e
    using s by (auto simp: games_steamId_def Let_def split: if_splits sum.splits)
  then show ?thesis
    using games_steamId_frame(3) [OF s]
    by (auto simp: games_fetch_def s Let_def split: sum.splits)
qed

lemma getUserData_failure:
  assumes hit: "cache_hit now (cache st (''user_'' @ uid)) CACHE_TTL = None"
    and pend: "pendingRequests st (''user_'' @ uid) = None"
    and res: "getUserData sv now st uid = (Ready (ErrorData e), st1)"
    and later: "now \<le> now1"
  shows "cache st1 (''user_'' @ uid) = cache st (''user_'' @ uid)
         \<and> pendingRequests st1 (''user_'' @ uid) = None
         \<and> fst (getUserData sv1 now1 st1 uid) = Ready (fst (user_fetch sv1 now1 st1 uid))
         \<and> length (calls st1) < length (calls (snd (getUserData sv1 now1 st1 uid)))"
proof -
  obtain d st0 where f: "user_fetch sv now st uid = (d, st0)" by fastforce
  from res hit pend f have d: "d = ErrorData e"
    and st1: "st1 = st0\<lparr>pendingRequests := (pendingRequests st0)(''user_'' @ uid := None)\<rparr>"
    by (simp_all add: getUserData_def Let_def)
  from f d have f': "user_fetch sv now st uid = (ErrorData e, st0)" by simp
  have c: "cache st1 (''user_'' @ uid) = cache st (''user_'' @ uid)"
    using user_fetch_error(1) [OF f'] by (simp add: st1)
  have p: "pendingRequests st1 (''user_'' @ uid) = None" by (simp add: st1)
  have h: "cache_hit now1 (cache st1 (''user_'' @ uid)) CACHE_TTL = None"
    using cache_hit_later [OF hit later] c by simp
  obtain d2 st2 where f2: "user_fetch sv1 now1 st1 uid = (d2, st2)" by fastforce
  have "length (calls st1) < length (calls st2)"
    using user_fetch_calls [of st1 sv1 now1 uid] f2 by simp
  with c p h f2 show ?thesis by (simp add: getUserData_def Let_def)
qed

lemma getGameData_failure:
  assumes hit: "cache_hit now (cache st (''games_'' @ uid @ ''_'' @ cc)) GAME_DATA_CACHE_TTL = None"
    and pend: "pendingRequests st (''games_'' @ uid @ ''_'' @ cc) = None"
    and res: "getGameData sv now st uid cc = (Ready (ErrorData e), st1)"
    and later: "now \<le> now1"
  shows "cache st1 (''games_'' @ uid @ ''_'' @ cc) = cache st (''games_'' @ uid @ ''_'' @ cc)
         \<and> pendingRequests st1 (''games_'' @ uid @ ''_'' @ cc) = None
         \<and> fst (getGameData sv1 now1 st1 uid cc) = Ready (fst (games_fetch sv1 now1 st1 uid cc))
         \<and> length (calls st1) < length (calls (snd (getGameData sv1 now1 st1 uid cc)))"
proof -
  obtain d st0 where f: "games_fetch sv now st uid cc = (d, st0)" by fastforce
  from res hit pend f have d: "d = ErrorData e"
    and st1: "st1 = st0\<lparr>pendingRequests :=
                 (pendingRequests st0)(''games_'' @ uid @ ''_'' @ cc := None)\<rparr>"
    by (simp_all add: getGameData_def Let_def)
  from f d have f': "games_fetch sv now st uid cc = (ErrorData e, st0)" by simp
  have c: "cache st1 (''games_'' @ uid @ ''_'' @ cc) = cache st (''games_'' @ uid @ ''_'' @ cc)"
    using games_fetch_error(1) [OF f'] by (simp add: st1)
  have p: "pendingRequests st1 (''games_'' @ uid @ ''_'' @ cc) = None" by (simp add: st1)
  have h: "cache_hit now1 (cache st1 (''games_'' @ uid @ ''_'' @ cc)) GAME_DATA_CACHE_TTL = None"
    using cache_hit_later [OF hit later] c by simp
  obtain d2 st2 where f2: "games_fetch sv1 now1 st1 uid cc = (d2, st2)" by fastforce
  have "length (calls st1) < length (calls st2)"
    using games_fetch_calls [of st1 sv1 now1 uid cc] f2 by simp
  with c p h f2 show ?thesis by (simp add: getGameData_def Let_def)
qed

text \<open>
  Claim C10. When a request of \<open>getUserData\<close> or \<open>getGameData\<close> is made (no valid
  cached value, none in flight) and ends in the error marker, the cache holds under the
  request's key what it held before and the key is no longer in flight; a later
  request for the same key makes the upstream requests again, and its answer is the
  result of that new attempt.
\<close>

theorem failure_is_not_cached:
  assumes "now \<le> now1"
  shows "(cache_hit now (cache st (''user_'' @ uid)) CACHE_TTL = None
          \<and> pendingRequests st (''user_'' @ uid) = None
          \<and> getUserData sv now st uid = (Ready (ErrorData e), st1)
          \<longrightarrow> cache st1 (''user_'' @ uid) = cache st (''user_'' @ uid)
              \<and> pendingRequests st1 (''user_'' @ uid) = None
              \<and> fst (getUserData sv1 now1 st1 uid) = Ready (fst (user_fetch sv1 now1 st1 uid))
              \<and> length (calls st1) < length (calls (snd (getUserData sv1 now1 st1 uid))))
       \<and> (cache_hit now (cache st (''games_'' @ uid @ ''_'' @ cc)) GAME_DATA_CACHE_TTL = None
          \<and> pendingRequests st (''games_'' @ uid @ ''_'' @ cc) = None
          \<and> getGameData sv now st uid cc = (Ready (ErrorData e), st1)
          \<longrightarrow> cache st1 (''games_'' @ uid @ ''_'' @ cc) = cache st (''games_'' @ uid @ ''_'' @ cc)
              \<and> pendingRequests st1 (''games_'' @ uid @ ''_'' @ cc) = None
              \<and> fst (getGameData sv1 now1 st1 uid cc)
                  = Ready (fst (games_fetch sv1 now1 st1 uid cc))
              \<and> length (calls st1) < length (calls (snd (getGameData sv1 now1 st1 uid cc))))"
  using getUserData_failure [OF _ _ _ assms, of st uid sv e st1 sv1]
        getGameData_failure [OF _ _ _ assms, of st uid cc sv e st1 sv1]
  by blast

text \<open>
  The profile request fails once (the summary times out) and is repeated five
  milliseconds later against services that answer.
\<close>

theorem failure_is_not_cached_witness:
  "getUserData failing_services 0 empty_state ''gabe'' = (Ready (ErrorData ''no user''), after_failure)
   \<and> cache after_failure ''user_gabe'' = cache empty_state ''user_gabe''
   \<and> fst (getUserData demo_services 5 after_failure ''gabe'')
       = Ready (fst (user_fetch demo_services 5 after_failure ''gabe''))
   \<and> length (calls after_failure)
       < length (calls (snd (getUserData demo_services 5 after_failure ''gabe'')))"
proof -
  have r: "getUserData failing_services 0 empty_state ''gabe''
             = (Ready (ErrorData ''no user''), after_failure)"
    by (simp add: after_failure_def getUserData_def user_fetch_def user_steamId_def
          cache_hit_def failing_services_def demo_services_def empty_state_def Let_def)
  have h: "cache_hit 0 (cache empty_state (''user_'' @ ''gabe'')) CACHE_TTL = None"
    "pendingRequests empty_state (''user_'' @ ''gabe'') = None"
    by (simp_all add: cache_hit_def empty_state_def)
  have "(0::int) \<le> 5" by simp
  from failure_is_not_cached
         [OF this, of empty_state "''gabe''" failing_services "''no user''" after_failure
            demo_services "''US''"]
       r h
  show ?thesis by simp
qed

section \<open>Requests that share a cache key\<close>

text \<open>
  What a body leaves alone: starting it writes neither the cache nor
  \<open>pendingRequests\<close>; resuming it writes the cache only at its own key, and only when
  it ends, and at keys that start with \<open>steamid_\<close>, which no request key does.
\<close>

lemma cacheKey_not_steamid: "cacheKey rq \<noteq> ''steamid_'' @ x"
  by (cases rq) simp_all

lemma cacheKey_ttl: "cacheKey a = cacheKey b \<Longrightarrow> ttl_of a = ttl_of b"
  by (cases a; cases b; simp)

lemma start_body_frame:
  assumes "start_body now st rq = (k, st1)"
  shows "cache st1 = cache st" "pendingRequests st1 = pendingRequests st"
  using assms by (cases rq; auto simp: Let_def split: if_splits)+

lemma resume_body_frame:
  assumes "resume_body sv now st rq k = (res, st1)"
  shows "pendingRequests st1 = pendingRequests st"
    and "key \<noteq> cacheKey rq \<Longrightarrow> (\<And>x. key \<noteq> ''steamid_'' @ x) \<Longrightarrow> cache st1 key = cache st key"
    and "\<not> isl res \<Longrightarrow> (\<And>x. key \<noteq> ''steamid_'' @ x) \<Longrightarrow> cache st1 key = cache st key"
  using assms
  by (cases rq; cases k; auto simp: Let_def split: sum.splits)+

lemma resume_body_remaining:
  assumes "resume_body sv now st rq k = (Inr k1, st1)"
  shows "remaining k1 < remaining k"
  using assms by (cases rq; cases k; auto simp: Let_def split: sum.splits)

lemma consistent_idle: "consistent idle"
  by (simp add: consistent_def idle_def)

lemma consistent_call:
  assumes "consistent l" and "call_request now l rq = (r, l1)"
  shows "consistent l1"
proof (cases "cache_hit now (cache (mem l) (cacheKey rq)) (ttl_of rq)")
  case (Some d)
  with assms show ?thesis by (simp add: call_request_def)
next
  case None
  show ?thesis
  proof (cases "pendingRequests (mem l) (cacheKey rq)")
    case (Some p)
    with None assms show ?thesis by (simp add: call_request_def)
  next
    case pend: None
    obtain k st1 where s: "start_body now (mem l) rq = (k, st1)" by fastforce
    note f = start_body_frame [OF s]
    from assms(2) None pend s
    have l1: "l1 = l\<lparr>mem := st1\<lparr>pendingRequests := (pendingRequests st1)(cacheKey rq \<mapsto> promises l)\<rparr>,
                      suspended := (suspended l)(promises l \<mapsto> (rq, k)),
                      promises := Suc (promises l),
                      started := started l @ [cacheKey rq]\<rparr>"
      by (simp add: call_request_def Let_def)
    show ?thesis
      unfolding consistent_def
    proof (intro allI impI)
      fix q r' k'
      assume q: "suspended l1 q = Some (r', k')"
      show "q < promises l1 \<and> pendingRequests (mem l1) (cacheKey r') = Some q"
      proof (cases "q = promises l")
        case True
        with q show ?thesis by (simp add: l1)
      next
        case False
        with q have "suspended l q = Some (r', k')" by (simp add: l1)
        with assms(1) have o: "q < promises l" "pendingRequests (mem l) (cacheKey r') = Some q"
          by (auto simp: consistent_def)
        with pend have "cacheKey r' \<noteq> cacheKey rq" by auto
        with o show ?thesis by (simp add: l1 f)
      qed
    qed
  qed
qed

lemma consistent_resume:
  assumes "consistent l"
  shows "consistent (resume sv now l p)"
proof (cases "suspended l p")
  case None
  with assms show ?thesis by (simp add: resume_def)
next
  case (Some a)
  obtain rq k where a: "a = (rq, k)" by (cases a)
  obtain res st1 where b: "resume_body sv now (mem l) rq k = (res, st1)" by fastforce
  note f = resume_body_frame(1) [OF b]
  from assms Some a have p: "pendingRequests (mem l) (cacheKey rq) = Some p"
    by (auto simp: consistent_def)
  show ?thesis
  proof (cases res)
    case (Inr k1)
    with Some a b have r: "resume sv now l p = l\<lparr>mem := st1, suspended := (suspended l)(p \<mapsto> (rq, k1))\<rparr>"
      by (simp add: resume_def)
    show ?thesis
      unfolding consistent_def r
      using assms Some a f by (auto simp: consistent_def)
  next
    case (Inl d)
    with Some a b have r: "resume sv now l p =
        l\<lparr>mem := st1\<lparr>pendingRequests := (pendingRequests st1)(cacheKey rq := None)\<rparr>,
          suspended := (suspended l)(p := None),
          resolved := (resolved l)(p \<mapsto> d)\<rparr>"
      by (simp add: resume_def)
    show ?thesis
      unfolding consistent_def
    proof (intro allI impI)
      fix q r' k'
      assume q: "suspended (resume sv now l p) q = Some (r', k')"
      then have qp: "q \<noteq> p" and "suspended l q = Some (r', k')"
        by (auto simp: r split: if_splits)
      with assms have o: "q < promises l" "pendingRequests (mem l) (cacheKey r') = Some q"
        by (auto simp: consistent_def)
      with p qp have "cacheKey r' \<noteq> cacheKey rq" by auto
      with o show "q < promises (resume sv now l p)
                   \<and> pendingRequests (mem (resume sv now l p)) (cacheKey r') = Some q"
        by (simp add: r f)
    qed
  qed
qed

lemma consistent_step:
  assumes "consistent l" and "step sv l e = (r, l1)"
  shows "consistent l1"
proof (cases e)
  case (Invoke now rq)
  with assms(2) obtain r0 where "call_request now l rq = (r0, l1)"
    by (auto split: prod.splits)
  with assms(1) show ?thesis by (rule consistent_call)
next
  case (Resume now p)
  with assms show ?thesis by (auto simp: consistent_resume)
qed

lemma consistent_run:
  assumes "consistent l"
  shows "consistent (snd (run sv l evs))"
  using assms
proof (induction evs arbitrary: l)
  case Nil
  then show ?case by simp
next
  case (Cons e es)
  obtain r l1 where s: "step sv l e = (r, l1)" by fastforce
  with Cons.prems have "consistent l1" by (rule consistent_step)
  then have "consistent (snd (run sv l1 es))" by (rule Cons.IH)
  with s show ?case by (simp add: split_beta)
qed

lemma resolved_resume: "resolved l p \<noteq> None \<Longrightarrow> resolved (resume sv now l q) p \<noteq> None"
  by (auto simp: resume_def split: option.splits prod.splits sum.splits)

lemma resolved_step:
  assumes "resolved l p \<noteq> None" and "step sv l e = (r, l1)"
  shows "resolved l1 p \<noteq> None"
proof (cases e)
  case (Invoke now rq)
  with assms show ?thesis
    by (auto simp: call_request_def Let_def split: option.splits prod.splits)
next
  case (Resume now q)
  with assms(2) have "l1 = resume sv now l q" by simp
  with resolved_resume [OF assms(1)] show ?thesis by simp
qed

lemma resolved_run:
  assumes "resolved l p \<noteq> None"
  shows "resolved (snd (run sv l evs)) p \<noteq> None"
  using assms
proof (induction evs arbitrary: l)
  case Nil
  then show ?case by simp
next
  case (Cons e es)
  obtain r l1 where s: "step sv l e = (r, l1)" by fastforce
  with Cons.prems have "resolved l1 p \<noteq> None" by (rule resolved_step)
  then have "resolved (snd (run sv l1 es)) p \<noteq> None" by (rule Cons.IH)
  with s show ?case by (simp add: split_beta)
qed


lemma resume_in_flight:
  assumes "consistent l" and "in_flight rq p c n l"
  shows "in_flight rq p c n (resume sv now l q) \<or> resolved (resume sv now l q) p \<noteq> None"
proof (cases "suspended l q")
  case None
  with assms(2) show ?thesis by (simp add: resume_def)
next
  case (Some a)
  obtain r' k' where a: "a = (r', k')" by (cases a)
  obtain res st1 where b: "resume_body sv now (mem l) r' k' = (res, st1)" by fastforce
  note f = resume_body_frame [OF b]
  from assms(1) Some a have pq: "pendingRequests (mem l) (cacheKey r') = Some q"
    by (auto simp: consistent_def)
  from assms(2) obtain k where k: "suspended l p = Some (rq, k)"
    and pp: "pendingRequests (mem l) (cacheKey rq) = Some p"
    and c: "cache (mem l) (cacheKey rq) = c"
    and n: "count_list (started l) (cacheKey rq) = n"
    by (auto simp: in_flight_def)
  show ?thesis
  proof (cases res)
    case (Inr k1)
    with Some a b have r: "resume sv now l q = l\<lparr>mem := st1, suspended := (suspended l)(q \<mapsto> (r', k1))\<rparr>"
      by (simp add: resume_def)
    have "cache st1 (cacheKey rq) = cache (mem l) (cacheKey rq)"
    proof (rule f(3))
      show "\<not> isl res" using Inr by simp
      show "cacheKey rq \<noteq> ''steamid_'' @ x" for x by (rule cacheKey_not_steamid)
    qed
    moreover have "\<exists>k2. ((suspended l)(q \<mapsto> (r', k1))) p = Some (rq, k2)"
      using k Some a by (cases "q = p") simp_all
    ultimately have "in_flight rq p c n (resume sv now l q)"
      using pp c n by (simp add: in_flight_def r f(1))
    then show ?thesis ..
  next
    case (Inl d)
    with Some a b have r: "resume sv now l q =
        l\<lparr>mem := st1\<lparr>pendingRequests := (pendingRequests st1)(cacheKey r' := None)\<rparr>,
          suspended := (suspended l)(q := None),
          resolved := (resolved l)(q \<mapsto> d)\<rparr>"
      by (simp add: resume_def)
    show ?thesis
    proof (cases "q = p")
      case True
      have "resolved (resume sv now l q) p = Some d" unfolding r using True by simp
      then show ?thesis by simp
    next
      case False
      with pq pp have ne: "cacheKey rq \<noteq> cacheKey r'" by auto
      have "cache st1 (cacheKey rq) = cache (mem l) (cacheKey rq)"
      proof (rule f(2))
        show "cacheKey rq \<noteq> cacheKey r'" by (rule ne)
        show "cacheKey rq \<noteq> ''steamid_'' @ x" for x by (rule cacheKey_not_steamid)
      qed
      then have "in_flight rq p c n (resume sv now l q)"
        using False ne k pp c n by (simp add: in_flight_def r f(1))
      then show ?thesis ..
    qed
  qed
qed

lemma call_in_flight:
  assumes "consistent l" and "in_flight rq p c n l"
    and "cache_hit now c (ttl_of rq) = None" and "now \<le> t"
    and "call_request t l r' = (a, l1)"
  shows "in_flight rq p c n l1 \<and> (cacheKey r' = cacheKey rq \<longrightarrow> a = Shared p)"
proof -
  from assms(2) obtain k where k: "suspended l p = Some (rq, k)"
    and pp: "pendingRequests (mem l) (cacheKey rq) = Some p"
    and c: "cache (mem l) (cacheKey rq) = c"
    and n: "count_list (started l) (cacheKey rq) = n"
    by (auto simp: in_flight_def)
  from assms(1) k have lt: "p < promises l" by (auto simp: consistent_def)
  show ?thesis
  proof (cases "cacheKey r' = cacheKey rq")
    case True
    have "cache_hit t (cache (mem l) (cacheKey r')) (ttl_of r') = None"
      using cache_hit_later [OF assms(3,4)] c True cacheKey_ttl [OF True] by simp
    with assms(5) pp True have "a = Shared p" "l1 = l" by (simp_all add: call_request_def)
    with assms(2) show ?thesis by simp
  next
    case False
    show ?thesis
    proof (cases "cache_hit t (cache (mem l) (cacheKey r')) (ttl_of r')")
      case (Some d)
      with assms(2,5) False show ?thesis by (simp add: call_request_def)
    next
      case None
      show ?thesis
      proof (cases "pendingRequests (mem l) (cacheKey r')")
        case (Some p')
        with None assms(2,5) False show ?thesis by (simp add: call_request_def)
      next
        case pend: None
        obtain k' st1 where s: "start_body t (mem l) r' = (k', st1)" by fastforce
        note f = start_body_frame [OF s]
        from assms(5) None pend s
        have l1: "l1 = l\<lparr>mem := st1\<lparr>pendingRequests := (pendingRequests st1)(cacheKey r' \<mapsto> promises l)\<rparr>,
                          suspended := (suspended l)(promises l \<mapsto> (r', k')),
                          promises := Suc (promises l),
                          started := started l @ [cacheKey r']\<rparr>"
          by (simp add: call_request_def Let_def)
        have "in_flight rq p c n l1"
          using False k pp c n lt by (auto simp: in_flight_def l1 f)
        with False show ?thesis by simp
      qed
    qed
  qed
qed

lemma run_in_flight:
  assumes "consistent l" and "in_flight rq p c n l"
    and "cache_hit now c (ttl_of rq) = None"
    and "\<forall>e \<in> set evs. now \<le> event_time e"
    and "run sv l evs = (rs, l2)"
    and "resolved l2 p = None"
  shows "in_flight rq p c n l2
         \<and> (\<forall>i < length evs. \<forall>t r'. evs ! i = Invoke t r' \<longrightarrow> cacheKey r' = cacheKey rq
               \<longrightarrow> rs ! i = Some (Shared p))"
  using assms(1,2,4,5,6)
proof (induction evs arbitrary: l rs)
  case Nil
  then show ?case by simp
next
  case (Cons e es)
  obtain r l1 where s: "step sv l e = (r, l1)" by fastforce
  obtain rs1 where t: "run sv l1 es = (rs1, l2)" and rs: "rs = r # rs1"
    using Cons.prems(4) s by (auto split: prod.splits)
  have cons: "consistent l1" using Cons.prems(1) s by (rule consistent_step)
  have un: "resolved l1 p = None"
  proof (rule ccontr)
    assume "resolved l1 p \<noteq> None"
    then have "resolved (snd (run sv l1 es)) p \<noteq> None" by (rule resolved_run)
    with t Cons.prems(5) show False by simp
  qed
  have time: "now \<le> event_time e" using Cons.prems(3) by simp
  have step: "in_flight rq p c n l1
              \<and> (\<forall>t r'. e = Invoke t r' \<longrightarrow> cacheKey r' = cacheKey rq \<longrightarrow> r = Some (Shared p))"
  proof (cases e)
    case (Invoke t r')
    with s obtain a where a: "call_request t l r' = (a, l1)" "r = Some a"
      by (auto split: prod.splits)
    from call_in_flight [OF Cons.prems(1,2) assms(3) _ a(1)] time Invoke a(2)
    show ?thesis by simp
  next
    case (Resume t q)
    with s have "l1 = resume sv t l q" by simp
    with resume_in_flight [OF Cons.prems(1,2), of sv t q] un Resume show ?thesis by simp
  qed
  have rest: "\<forall>e \<in> set es. now \<le> event_time e" using Cons.prems(3) by simp
  note ih = Cons.IH [OF cons conjunct1 [OF step] rest t Cons.prems(5)]
  show ?case
  proof (intro conjI allI impI)
    show "in_flight rq p c n l2" using ih by simp
  next
    fix i t r'
    assume i: "i < length (e # es)" and e: "(e # es) ! i = Invoke t r'"
      and key: "cacheKey r' = cacheKey rq"
    show "rs ! i = Some (Shared p)"
    proof (cases i)
      case 0
      with e step key rs show ?thesis by simp
    next
      case (Suc j)
      with i e key ih rs show ?thesis by simp
    qed
  qed
qed

lemma resume_completes:
  assumes "suspended l p = Some (rq, k)"
  shows "resolved (resume sv now l p) p \<noteq> None
         \<or> (\<exists>k1. suspended (resume sv now l p) p = Some (rq, k1) \<and> remaining k1 < remaining k)"
proof -
  obtain res st1 where b: "resume_body sv now (mem l) rq k = (res, st1)" by fastforce
  show ?thesis
  proof (cases res)
    case (Inl d)
    with assms b show ?thesis by (simp add: resume_def)
  next
    case (Inr k1)
    with b have "remaining k1 < remaining k" by (simp add: resume_body_remaining)
    with assms b Inr show ?thesis by (simp add: resume_def)
  qed
qed

lemma remaining_bounds: "0 < remaining k" "remaining k \<le> 3"
  by (cases k; simp)+

lemma three_resumes:
  assumes "suspended l p = Some (rq, k)"
  shows "resolved (resume sv t3 (resume sv t2 (resume sv t1 l p) p) p) p \<noteq> None"
proof -
  let ?l1 = "resume sv t1 l p"
  let ?l2 = "resume sv t2 ?l1 p"
  let ?l3 = "resume sv t3 ?l2 p"
  note fin = resolved_resume
  from resume_completes [OF assms, of sv t1]
  show ?thesis
  proof
    assume "resolved ?l1 p \<noteq> None"
    then have "resolved ?l2 p \<noteq> None" by (rule fin)
    then show ?thesis by (rule fin)
  next
    assume "\<exists>k1. suspended ?l1 p = Some (rq, k1) \<and> remaining k1 < remaining k"
    then obtain k1 where k1: "suspended ?l1 p = Some (rq, k1)" "remaining k1 < remaining k"
      by blast
    from resume_completes [OF k1(1), of sv t2]
    show ?thesis
    proof
      assume "resolved ?l2 p \<noteq> None"
      then show ?thesis by (rule fin)
    next
      assume "\<exists>k2. suspended ?l2 p = Some (rq, k2) \<and> remaining k2 < remaining k1"
      then obtain k2 where k2: "suspended ?l2 p = Some (rq, k2)" "remaining k2 < remaining k1"
        by blast
      from resume_completes [OF k2(1), of sv t3]
      show ?thesis
      proof
        assume "resolved ?l3 p \<noteq> None"
        then show ?thesis .
      next
        assume "\<exists>k3. suspended ?l3 p = Some (rq, k3) \<and> remaining k3 < remaining k2"
        then obtain k3 where "remaining k3 < remaining k2" by blast
        with k1(2) k2(2) remaining_bounds [of k] remaining_bounds [of k3]
        show ?thesis by linarith
      qed
    qed
  qed
qed

lemma resume_removes_marker:
  assumes "suspended l p = Some (rq, k)" and "resolved l p = None"
    and "resolved (resume sv now l p) p \<noteq> None"
  shows "pendingRequests (mem (resume sv now l p)) (cacheKey rq) = None"
    and "suspended (resume sv now l p) p = None"
proof -
  obtain res st1 where b: "resume_body sv now (mem l) rq k = (res, st1)" by fastforce
  have "pendingRequests (mem (resume sv now l p)) (cacheKey rq) = None
        \<and> suspended (resume sv now l p) p = None"
  proof (cases res)
    case (Inl d)
    with assms b show ?thesis by (simp add: resume_def)
  next
    case (Inr k1)
    with assms b show ?thesis by (simp add: resume_def)
  qed
  then show "pendingRequests (mem (resume sv now l p)) (cacheKey rq) = None"
    and "suspended (resume sv now l p) p = None" by simp_all
qed

text \<open>
  Resumed at once, the body cut at its \<open>await\<close>s is the body run to completion:
  same module state, same value.
\<close>

lemma staged_getUserData:
  assumes "cache_hit now (cache (mem l) (''user_'' @ uid)) CACHE_TTL = None"
    and "pendingRequests (mem l) (''user_'' @ uid) = None"
  shows "mem (resume sv now (resume sv now (snd (call_request now l (UserRequest uid)))
                 (promises l)) (promises l))
           = snd (getUserData sv now (mem l) uid)
         \<and> map_option Ready
             (resolved (resume sv now (resume sv now (snd (call_request now l (UserRequest uid)))
                 (promises l)) (promises l)) (promises l))
           = Some (fst (getUserData sv now (mem l) uid))"
  using assms
  by (auto simp: call_request_def resume_def getUserData_def user_fetch_def user_steamId_def
        Let_def split: sum.splits)

lemma staged_getGameData:
  assumes "cache_hit now (cache (mem l) (''games_'' @ uid @ ''_'' @ cc)) GAME_DATA_CACHE_TTL = None"
    and "pendingRequests (mem l) (''games_'' @ uid @ ''_'' @ cc) = None"
  shows "mem (resume sv now (resume sv now (resume sv now
                 (snd (call_request now l (GamesRequest uid cc)))
                 (promises l)) (promises l)) (promises l))
           = snd (getGameData sv now (mem l) uid cc)
         \<and> map_option Ready
             (resolved (resume sv now (resume sv now (resume sv now
                 (snd (call_request now l (GamesRequest uid cc)))
                 (promises l)) (promises l)) (promises l)) (promises l))
           = Some (fst (getGameData sv now (mem l) uid cc))"
  using assms
  by (auto simp: call_request_def resume_def getGameData_def games_fetch_def games_steamId_def
        Let_def split: sum.splits)

text \<open>
  Claim C9. A call for a key that is not in flight starts a promise \<open>p\<close>. Whatever
  happens next (calls for this key and for others, bodies resumed, that of \<open>p\<close>
  included), as long as \<open>p\<close> has not resolved: every call for the key is answered
  with the promise \<open>p\<close> itself, so that all callers receive the one value it resolves
  with; exactly one body has been started for the key; the key is still in
  \<open>pendingRequests\<close>. The step that resolves \<open>p\<close>, with a value or with the error
  object, removes the key from \<open>pendingRequests\<close>, and the body ends after at most
  three \<open>await\<close>s. (\<open>Date.now()\<close> does not go back while the request is in flight.)
\<close>

theorem one_fetch_per_key:
  assumes "run sv idle before = (rs0, l0)"
    and "pendingRequests (mem l0) (cacheKey rq) = None"
    and "call_request now l0 rq = (Shared p, l1)"
    and "\<forall>e \<in> set evs. now \<le> event_time e"
    and "run sv l1 evs = (rs, l2)"
    and "resolved l2 p = None"
  shows "(\<forall>i < length evs. \<forall>t r. evs ! i = Invoke t r \<longrightarrow> cacheKey r = cacheKey rq
            \<longrightarrow> rs ! i = Some (Shared p))
         \<and> count_list (started l2) (cacheKey rq) = Suc (count_list (started l0) (cacheKey rq))
         \<and> pendingRequests (mem l2) (cacheKey rq) = Some p
         \<and> (\<forall>t. resolved (resume sv t l2 p) p \<noteq> None
                \<longrightarrow> pendingRequests (mem (resume sv t l2 p)) (cacheKey rq) = None)
         \<and> (\<forall>t1 t2 t3. resolved (resume sv t3 (resume sv t2 (resume sv t1 l2 p) p) p) p \<noteq> None)"
proof -
  have c0: "consistent l0" using consistent_run [OF consistent_idle, of sv before] assms(1) by simp
  have c1: "consistent l1" using c0 assms(3) by (rule consistent_call)
  have miss: "cache_hit now (cache (mem l0) (cacheKey rq)) (ttl_of rq) = None"
    using assms(3) by (cases "cache_hit now (cache (mem l0) (cacheKey rq)) (ttl_of rq)")
                       (simp_all add: call_request_def)
  obtain k st1 where s: "start_body now (mem l0) rq = (k, st1)" by fastforce
  note f = start_body_frame [OF s]
  from assms(2,3) miss s
  have p: "p = promises l0"
    and l1: "l1 = l0\<lparr>mem := st1\<lparr>pendingRequests := (pendingRequests st1)(cacheKey rq \<mapsto> promises l0)\<rparr>,
                      suspended := (suspended l0)(promises l0 \<mapsto> (rq, k)),
                      promises := Suc (promises l0),
                      started := started l0 @ [cacheKey rq]\<rparr>"
    by (auto simp: call_request_def Let_def)
  have fl: "in_flight rq p (cache (mem l0) (cacheKey rq)) (Suc (count_list (started l0) (cacheKey rq))) l1"
    by (simp add: in_flight_def l1 p f)
  note r = run_in_flight [OF c1 fl miss assms(4,5,6)]
  then obtain k2 where k2: "suspended l2 p = Some (rq, k2)"
    and marker: "pendingRequests (mem l2) (cacheKey rq) = Some p"
    and n: "count_list (started l2) (cacheKey rq) = Suc (count_list (started l0) (cacheKey rq))"
    by (auto simp: in_flight_def)
  have removed: "pendingRequests (mem (resume sv t l2 p)) (cacheKey rq) = None"
    if "resolved (resume sv t l2 p) p \<noteq> None" for t
    using k2 assms(6) that by (rule resume_removes_marker(1))
  have completes: "resolved (resume sv t3 (resume sv t2 (resume sv t1 l2 p) p) p) p \<noteq> None"
    for t1 t2 t3
    using k2 by (rule three_resumes)
  from conjunct2 [OF r] n marker removed completes show ?thesis by blast
qed

theorem one_fetch_per_key_witness:
  "fst (call_request 0 idle (UserRequest ''gabe'')) = Shared 0
   \<and> resolved later 0 = None
   \<and> fst (run demo_services first_call demo_events) ! 0 = Some (Shared 0)
   \<and> fst (run demo_services first_call demo_events) ! 2 = Some (Shared 0)
   \<and> count_list (started later) ''user_gabe'' = 1
   \<and> pendingRequests (mem later) ''user_gabe'' = Some 0
   \<and> resolved (resume demo_services 6 (resume demo_services 5 (resume demo_services 4 later 0) 0) 0) 0
       \<noteq> None"
proof -
  have h1: "run demo_services idle [] = ([], idle)" by simp
  have h2: "pendingRequests (mem idle) (cacheKey (UserRequest ''gabe'')) = None"
    by (simp add: idle_def)
  have a: "fst (call_request 0 idle (UserRequest ''gabe'')) = Shared 0"
    by (simp add: call_request_def idle_def cache_hit_def Let_def split_beta)
  then have h3: "call_request 0 idle (UserRequest ''gabe'') = (Shared 0, first_call)"
    by (simp add: first_call_def prod_eq_iff)
  have h4: "\<forall>e \<in> set demo_events. 0 \<le> event_time e" by (simp add: demo_events_def)
  have h5: "run demo_services first_call demo_events
              = (fst (run demo_services first_call demo_events), later)"
    by (simp add: later_def)
  have h6: "resolved later 0 = None"
    by (simp add: later_def first_call_def demo_events_def call_request_def resume_def idle_def
          cache_hit_def demo_services_def Let_def split_beta)
  have e: "demo_events ! 0 = Invoke 1 (UserRequest ''gabe'')"
    "demo_events ! 2 = Invoke 3 (UserRequest ''gabe'')" "length demo_events = 3"
    by (simp_all add: demo_events_def)
  have s0: "count_list (started idle) ''user_gabe'' = 0" by (simp add: idle_def)
  from one_fetch_per_key [OF h1 h2 h3 h4 h5 h6] a h6 e s0
  show ?thesis by simp
qed

end
